theory Spec2Isabelle
  imports Main "HOL-Library.Char_ord" "HOL-Library.List_Lexorder" "HOL-Library.AList"
begin

section \<open>JavaScript strings\<close>

text \<open>
  A JavaScript string is a sequence of UTF-16 code units. The model writes it as a
  \<^typ>\<open>string\<close>, one \<^typ>\<open>char\<close> per code unit, which covers the code units below 256.
  The string methods the generators use are written out below with the behaviour they
  have in the source: \<open>startsWith\<close>, \<open>endsWith\<close>, \<open>split('/')\<close>, \<open>filter(Boolean)\<close>,
  \<open>slice(1)\<close>, \<open>join\<close>, \<open>trim\<close> and the regular-expression replacements.
\<close>

definition startsWith :: "string \<Rightarrow> string \<Rightarrow> bool" where
  "startsWith s p = (take (length p) s = p)"

definition endsWith :: "string \<Rightarrow> string \<Rightarrow> bool" where
  "endsWith s p = (length p \<le> length s \<and> drop (length s - length p) s = p)"

text \<open>\<open>s.split(c)\<close>: the pieces between the separators; never the empty list.\<close>

fun split_on :: "char \<Rightarrow> string \<Rightarrow> string list" where
  "split_on c [] = [[]]"
| "split_on c (x # xs) =
     (if x = c then [] # split_on c xs
      else (case split_on c xs of [] \<Rightarrow> [[x]] | w # ws \<Rightarrow> (x # w) # ws))"

text \<open>\<open>.split('/').filter(Boolean)\<close>: the non-empty segments of a path.\<close>

definition nonEmptySegments :: "string \<Rightarrow> string list" where
  "nonEmptySegments p = filter (\<lambda>s. s \<noteq> []) (split_on (CHR ''/'') p)"

text \<open>\<open>xs.join(sep)\<close>.\<close>

fun join :: "string \<Rightarrow> string list \<Rightarrow> string" where
  "join sep [] = []"
| "join sep [x] = x"
| "join sep (x # y # ys) = x @ sep @ join sep (y # ys)"

text \<open>\<open>s.replace(/\/$/, '')\<close>: one trailing slash is removed, if there is one.\<close>

definition stripTrailingSlash :: "string \<Rightarrow> string" where
  "stripTrailingSlash s = (if s \<noteq> [] \<and> last s = CHR ''/'' then butlast s else s)"

text \<open>\<open>s.replace(/\/+/g, '/')\<close>: every run of slashes becomes one slash.\<close>

fun collapseSlashes :: "string \<Rightarrow> string" where
  "collapseSlashes (a # b # xs) =
     (if a = CHR ''/'' \<and> b = CHR ''/'' then collapseSlashes (b # xs)
      else a # collapseSlashes (b # xs))"
| "collapseSlashes xs = xs"

definition isDigit :: "char \<Rightarrow> bool" where
  "isDigit c = (CHR ''0'' \<le> c \<and> c \<le> CHR ''9'')"

text \<open>The character class \<open>[a-zA-Z0-9_]\<close>.\<close>

definition isWordChar :: "char \<Rightarrow> bool" where
  "isWordChar c =
     ((CHR ''a'' \<le> c \<and> c \<le> CHR ''z'') \<or> (CHR ''A'' \<le> c \<and> c \<le> CHR ''Z'')
      \<or> isDigit c \<or> c = CHR ''_'')"

text \<open>The decimal text of a natural number, as a template literal prints it.\<close>

definition digitChar :: "nat \<Rightarrow> char" where
  "digitChar d = ''0123456789'' ! (d mod 10)"

fun showNat :: "nat \<Rightarrow> string" where
  "showNat n = (if n < 10 then [digitChar n] else showNat (n div 10) @ [digitChar (n mod 10)])"

declare showNat.simps [simp del]


section \<open>Identifier utilities\<close>

text \<open>
  \<open>toIdentifier\<close> of the table synthesizer (and, with the same body, of the endpoint
  synthesizer): \<open>value.replace(/[^a-zA-Z0-9_]/g, '_').replace(/^[0-9]/, '_$&')\<close>.
\<close>

definition replaceNonWord :: "string \<Rightarrow> string" where
  "replaceNonWord v = map (\<lambda>c. if isWordChar c then c else CHR ''_'') v"

definition prefixLeadingDigit :: "string \<Rightarrow> string" where
  "prefixLeadingDigit s =
     (case s of [] \<Rightarrow> [] | c # cs \<Rightarrow> if isDigit c then CHR ''_'' # c # cs else c # cs)"

definition toIdentifier :: "string \<Rightarrow> string" where
  "toIdentifier v = prefixLeadingDigit (replaceNonWord v)"

text \<open>
  \<open>sanitizeTableIdentifier\<close>, used by \<open>dropTable\<close>:
  \<open>tableName.replace(/[^a-zA-Z0-9_]/g, '_')\<close> and nothing else.
\<close>

definition sanitizeTableIdentifier :: "string \<Rightarrow> string" where
  "sanitizeTableIdentifier tableName = replaceNonWord tableName"

text \<open>The statement \<open>dropTable\<close> prepares: \<open>`DROP TABLE IF EXISTS ${...};`\<close>.\<close>

definition dropStatement :: "string \<Rightarrow> string" where
  "dropStatement tableName =
     ''DROP TABLE IF EXISTS '' @ sanitizeTableIdentifier tableName @ '';''"


section \<open>Route paths\<close>

text \<open>
  \<open>normalizeRoutePath\<close>: a path without a leading slash gets one and is returned at
  once; otherwise one trailing slash is removed and the empty result becomes \<open>/\<close>.
\<close>

definition normalizeRoutePath :: "string \<Rightarrow> string" where
  "normalizeRoutePath routePath =
     (if \<not> startsWith routePath ''/'' then ''/'' @ routePath
      else (let r = stripTrailingSlash routePath in if r = [] then ''/'' else r))"

definition isParam :: "string \<Rightarrow> bool" where
  "isParam segment = startsWith segment '':''"

text \<open>\<open>`[${segment.slice(1)}]`\<close>.\<close>

definition bracket :: "string \<Rightarrow> string" where
  "bracket segment = ''['' @ drop 1 segment @ '']''"

definition pathSegments :: "string \<Rightarrow> string list" where
  "pathSegments routePath =
     map (\<lambda>segment. if isParam segment then bracket segment else segment)
       (nonEmptySegments routePath)"

text \<open>
  \<open>breadcrumbs\<close>: the \<open>reduce\<close> over the non-empty segments, with the accumulated
  \<open>href\<close> as accumulator; each step pushes one crumb \<open>(label, href)\<close>.
\<close>

fun crumbsFrom :: "string \<Rightarrow> string list \<Rightarrow> (string \<times> string) list" where
  "crumbsFrom acc [] = []"
| "crumbsFrom acc (segment # rest) =
     (let href = collapseSlashes (acc @ ''/'' @ segment)
      in (segment, href) # crumbsFrom href rest)"

definition breadcrumbs :: "string \<Rightarrow> (string \<times> string) list" where
  "breadcrumbs routePath = crumbsFrom [] (nonEmptySegments routePath)"


text \<open>
  A string interpolated between single quotes into generated source denotes itself when
  it holds no quote, no backslash and no line break. For any other string the generated
  text is another program, or none.
\<close>

definition plainLiteral :: "string \<Rightarrow> bool" where
  "plainLiteral s = list_all (\<lambda>c. c \<notin> set [CHR 0x27, CHR 0x5C, CHR 0x0A, CHR 0x0D]) s"

section \<open>Payloads\<close>

text \<open>
  The payload shapes of \<open>schemas.ts\<close>. An optional field is an \<open>option\<close>; an object
  used as a dictionary (\<open>z.record\<close>) is the list of its entries in enumeration order.
\<close>

datatype columnType = TInteger | TText | TReal | TBoolean

datatype onDeleteAction = Cascade | Restrict | SetNull | NoAction

record ForeignKey =
  fk_table :: string
  fk_column :: string
  fk_onDelete :: "onDeleteAction option"

text \<open>
  A column default is a string, a number or a boolean. A number is carried as the text
  \<open>String(n)\<close> prints for it; number formatting itself is not modelled.
\<close>

datatype defaultValue = DefString string | DefNumber string | DefBoolean bool

record Column =
  col_name :: string
  col_type :: columnType
  col_primaryKey :: "bool option"
  col_autoIncrement :: "bool option"
  col_notNull :: "bool option"
  col_default :: "defaultValue option"
  col_fk :: "ForeignKey option"

record TablePayload =
  tableName :: string
  displayName :: "string option"
  columns :: "Column list"

datatype httpMethod = GET | POST | DELETE

datatype action = Select | Insert | Delete

datatype cmpOp = OpEq | OpNe | OpGt | OpGte | OpLt | OpLte

record WhereCondition =
  wc_column :: string
  wc_op :: cmpOp
  wc_source :: string

record EndpointConfig =
  ep_method :: httpMethod
  ep_path :: string
  ep_table :: string
  ep_action :: action
  ep_fieldMapping :: "(string \<times> string) list option"
  ep_where :: "WhereCondition list option"

record RoutePayload =
  routeId :: string
  route_path :: string
  pageName :: string
  dynamic :: bool

record DataSource =
  ds_endpointPath :: string
  ds_primaryKey :: string

text \<open>
  The three component shapes. Only the fields the generators read are kept apart; the
  remaining presentation fields of a component (placeholder, colour, binding, action)
  travel in \<open>comp_rest\<close> as opaque text.
\<close>

datatype Component =
    InputComponent (comp_id: string) (comp_label: "string option") (comp_textarea: bool)
      (comp_rest: string)
  | ButtonComponent (comp_id: string) (comp_label: "string option") (comp_rest: string)
  | TableComponent (comp_id: string) (comp_label: "string option") (comp_tableName: string)
      (comp_columns: "string list option") (comp_dataSource: DataSource)
      (comp_dynamicRouting: "bool option")

record TemplatePayload =
  tp_templateId :: string
  tp_routePath :: string
  tp_components :: "Component list"

record LayoutPayload =
  layoutId :: string
  lp_templateId :: string
  lp_routeId :: string
  areas :: "(string \<times> string list) list"

text \<open>The entry the template manifest keeps for a template.\<close>

record TemplateEntry =
  te_templateId :: string
  te_routePath :: string

text \<open>The options of a detail page, \<open>DynamicRouteOptions\<close>.\<close>

record DynamicRouteOptions =
  dro_routePath :: string
  dro_endpointPath :: string
  dro_primaryKey :: string

section \<open>Paths\<close>

text \<open>
  A path is the list of its segments below the file-system root, already normalized as
  \<open>path.join\<close> (POSIX) leaves it: empty segments and \<open>.\<close> are dropped, \<open>..\<close> removes the
  segment before it (and nothing at the root). \<open>ROOT = process.cwd()\<close> is a parameter
  \<open>root\<close> of every operation.
\<close>

type_synonym path = "string list"

definition pushSegment :: "path \<Rightarrow> string \<Rightarrow> path" where
  "pushSegment p seg =
     (if seg = [] \<or> seg = ''.'' then p else if seg = ''..'' then butlast p else p @ [seg])"

definition pathJoin :: "path \<Rightarrow> string list \<Rightarrow> path" where
  "pathJoin base pieces = foldl pushSegment base (concat (map (split_on (CHR ''/'')) pieces))"

definition resolveFromRoot :: "path \<Rightarrow> string \<Rightarrow> path" where
  "resolveFromRoot root rel = pathJoin root [rel]"

definition dirname :: "path \<Rightarrow> path" where
  "dirname p = butlast p"

definition isPrefixOf :: "path \<Rightarrow> path \<Rightarrow> bool" where
  "isPrefixOf p q = (take (length p) q = p)"

text \<open>\<open>path.basename(file, '.ts')\<close> of a directory entry name.\<close>

definition basenameTs :: "string \<Rightarrow> string" where
  "basenameTs file = (if endsWith file ''.ts'' then take (length file - 3) file else file)"


section \<open>The file tree\<close>

text \<open>
  What a file holds. Generated source whose text a property depends on is \<open>Text\<close>. A
  manifest is the JSON document of a value, and is modelled by that value
  (\<open>JSON.parse (JSON.stringify v) = v\<close> for these shapes). The generated sources whose
  text no property reads (template component, template registry, detail page, layout
  lookup) are kept as the data their text is printed from.
\<close>

datatype content =
    Text string
  | EndpointManifestJson "(string \<times> (httpMethod \<times> EndpointConfig) list) list"
  | RouteManifestJson "(string \<times> RoutePayload) list"
  | TemplateManifestJson "(string \<times> TemplateEntry) list"
  | LayoutManifestJson "(string \<times> LayoutPayload) list"
  | RoutePageSource string "(string \<times> string) list" string
  | TemplateSource TemplatePayload
  | RegistrySource "(string \<times> string list) list"
  | DetailPageSource DynamicRouteOptions
  | LayoutsSource "(string \<times> LayoutPayload) list"

datatype node = File content | Dir

text \<open>
  The tree is the list of its entries; \<open>lookup\<close> reads it as a map, so an entry hides
  any later entry of the same path. The root \<open>[]\<close> is always a directory.
\<close>

type_synonym fs = "(path \<times> node) list"

definition lookup :: "fs \<Rightarrow> path \<Rightarrow> node option" where
  "lookup s p = map_of s p"

definition isDir :: "fs \<Rightarrow> path \<Rightarrow> bool" where
  "isDir s p = (p = [] \<or> lookup s p = Some Dir)"

definition isFile :: "fs \<Rightarrow> path \<Rightarrow> bool" where
  "isFile s p = (p \<noteq> [] \<and> (case lookup s p of Some (File c) \<Rightarrow> True | _ \<Rightarrow> False))"

datatype error =
    EEXIST path | ENOTDIR path | EISDIR path | ENOENT path | ENOTEMPTY path | EINVAL path
  | MigrationFailed string
  | SqliteError string

text \<open>
  An asynchronous operation either throws, leaving the tree as it was when the failing
  call was made, or completes with a value and the tree it leaves.
\<close>

datatype 'a outcome = Threw error fs | Done 'a fs

fun finalTree :: "'a outcome \<Rightarrow> fs" where
  "finalTree (Threw e s) = s"
| "finalTree (Done x s) = s"

fun completed :: "'a outcome \<Rightarrow> bool" where
  "completed (Threw e s) = False"
| "completed (Done x s) = True"


text \<open>\<open>await a; b\<close>: the second call runs on the tree the first one leaves.\<close>

fun andThen :: "unit outcome \<Rightarrow> (fs \<Rightarrow> 'a outcome) \<Rightarrow> 'a outcome" where
  "andThen (Threw e s) f = Threw e s"
| "andThen (Done x s) f = f s"

text \<open>The paths \<open>p[0..1], p[0..2], ..., p\<close>.\<close>

definition ancestors :: "path \<Rightarrow> path list" where
  "ancestors p = map (\<lambda>n. take n p) [1..<Suc (length p)]"

text \<open>
  \<open>ensureDir\<close>: \<open>fs.mkdir(dirPath, {recursive: true})\<close>. Every missing directory on the
  way is created; a file on the way makes the call fail.
\<close>

definition ensureDir :: "path \<Rightarrow> fs \<Rightarrow> unit outcome" where
  "ensureDir p s =
     (case filter (isFile s) (ancestors p) of
        [] \<Rightarrow> Done () (fold (\<lambda>q. AList.update q Dir) (ancestors p) s)
      | q # _ \<Rightarrow> Threw (if q = p then EEXIST q else ENOTDIR q) s)"

text \<open>
  \<open>fs.writeFile\<close>: creates the file or replaces its content; fails on a directory and
  where the parent is not a directory.
\<close>

definition writeFile :: "path \<Rightarrow> content \<Rightarrow> fs \<Rightarrow> unit outcome" where
  "writeFile p c s =
     (if isDir s p then Threw (EISDIR p) s
      else if \<not> isDir s (dirname p) then Threw (ENOENT p) s
      else Done () (AList.update p (File c) s))"

definition writeTextFile :: "path \<Rightarrow> content \<Rightarrow> fs \<Rightarrow> unit outcome" where
  "writeTextFile filePath c s = andThen (ensureDir (dirname filePath) s) (writeFile filePath c)"

definition fileExists :: "path \<Rightarrow> fs \<Rightarrow> bool" where
  "fileExists p s = (p = [] \<or> lookup s p \<noteq> None)"

text \<open>
  \<open>removeFile\<close>: \<open>fs.rm(filePath, {recursive: true, force: true})\<close> inside a \<open>try\<close> whose
  \<open>catch\<close> only logs: the entry and everything below it go, and the call never throws.
\<close>

definition removeFile :: "path \<Rightarrow> fs \<Rightarrow> unit outcome" where
  "removeFile p s = Done () (filter (\<lambda>(q, n). \<not> isPrefixOf p q) s)"

text \<open>
  \<open>fs.rename\<close>: a file replaces a file at the destination; a directory moves with
  everything below it onto a free name or an empty directory.
\<close>

definition moveTree :: "path \<Rightarrow> path \<Rightarrow> fs \<Rightarrow> fs" where
  "moveTree src dst s =
     map (\<lambda>(q, n). if isPrefixOf src q then (dst @ drop (length src) q, n) else (q, n))
       (filter (\<lambda>(q, n). \<not> isPrefixOf dst q) s)"

definition rename :: "path \<Rightarrow> path \<Rightarrow> fs \<Rightarrow> unit outcome" where
  "rename src dst s =
     (if src = [] \<or> dst = [] then Threw (EINVAL src) s
      else if \<not> isDir s (dirname dst) then Threw (ENOENT dst) s
      else (case lookup s src of
          None \<Rightarrow> Threw (ENOENT src) s
        | Some (File c) \<Rightarrow>
            if src = dst then Done () s
            else if lookup s dst = Some Dir then Threw (EISDIR dst) s
            else Done () (AList.update dst (File c) (AList.delete src s))
        | Some Dir \<Rightarrow>
            if src = dst then Done () s
            else if isFile s dst then Threw (ENOTDIR dst) s
            else if isPrefixOf src dst then Threw (EINVAL dst) s
            else if filter (\<lambda>(q, n). isPrefixOf dst q \<and> q \<noteq> dst) s \<noteq> []
              then Threw (ENOTEMPTY dst) s
            else Done () (moveTree src dst s)))"

definition moveFile :: "path \<Rightarrow> path \<Rightarrow> fs \<Rightarrow> unit outcome" where
  "moveFile src dest s = andThen (ensureDir (dirname dest) s) (rename src dest)"

text \<open>
  \<open>listFiles\<close>: \<open>fs.readdir\<close>, and the empty list where that throws: the names of the
  entries directly below \<open>dir\<close>. Nothing lies below a path that is no directory, so the
  throwing case needs no branch of its own. The names come in no particular order; the
  one caller sorts them.
\<close>

definition listFiles :: "path \<Rightarrow> fs \<Rightarrow> string list" where
  "listFiles dir s =
     remdups (map (\<lambda>(q, n). last q) (filter (\<lambda>(q, n). q \<noteq> [] \<and> butlast q = dir) s))"


section \<open>Collaborators\<close>

text \<open>
  What the operations cannot decide themselves: the clock (\<open>Date.now()\<close>), whether each
  of the two migration steps exits with code 0, and whether the storage engine runs a
  given statement. They are parameters of the operations that use them.
\<close>

record collaborators =
  clock :: nat
  generateSucceeds :: bool
  pushSucceeds :: bool
  sqliteRuns :: "string \<Rightarrow> bool"

text \<open>\<open>runDrizzle\<close>: generate, then push; the first failure is thrown.\<close>

definition runDrizzle :: "collaborators \<Rightarrow> fs \<Rightarrow> unit outcome" where
  "runDrizzle env s =
     (if \<not> generateSucceeds env then Threw (MigrationFailed ''generate:sqlite'') s
      else if \<not> pushSucceeds env then Threw (MigrationFailed ''push:sqlite'') s
      else Done () s)"

section \<open>JavaScript objects as dictionaries\<close>

text \<open>
  An object used as a dictionary is the list of its own properties in enumeration order:
  the keys that are array indices (canonical decimal numerals below \<open>2^32 - 1\<close>) in
  ascending numeric order, then the other keys in the order of their creation.
\<close>

definition digitValue :: "char \<Rightarrow> int" where
  "digitValue c = of_char c - 48"

definition arrayIndex :: "string \<Rightarrow> int option" where
  "arrayIndex k =
     (if k = [] then None
      else if list_all isDigit k then
        (if hd k = CHR ''0'' \<and> k \<noteq> ''0'' then None
         else (let v = foldl (\<lambda>a c. 10 * a + digitValue c) 0 k
               in if v < 4294967295 then Some v else None))
      else None)"

text \<open>A new array-index key goes before the first key that is no smaller index.\<close>

fun insertIndexed :: "int \<Rightarrow> string \<Rightarrow> 'v \<Rightarrow> (string \<times> 'v) list \<Rightarrow> (string \<times> 'v) list" where
  "insertIndexed i k v [] = [(k, v)]"
| "insertIndexed i k v ((k', v') # rest) =
     (case arrayIndex k' of
        Some j \<Rightarrow> if j < i then (k', v') # insertIndexed i k v rest
                  else (k, v) # (k', v') # rest
      | None \<Rightarrow> (k, v) # (k', v') # rest)"

text \<open>
  Defining the property \<open>k\<close> of an object, as \<open>JSON.parse\<close> and an object literal do
  for each of their members: an existing property keeps its place and takes the new
  value; a new one is created.
\<close>

definition objDefine :: "string \<Rightarrow> 'v \<Rightarrow> (string \<times> 'v) list \<Rightarrow> (string \<times> 'v) list" where
  "objDefine k v obj =
     (case map_of obj k of
        Some old \<Rightarrow> AList.update k v obj
      | None \<Rightarrow> (case arrayIndex k of
                   Some i \<Rightarrow> insertIndexed i k v obj
                 | None \<Rightarrow> obj @ [(k, v)]))"

text \<open>
  The assignment \<open>obj[k] = v\<close> on an ordinary object. It defines the property, except for
  the key \<open>__proto__\<close> on an object with no own property of that name: the assignment
  then reaches the setter inherited from \<open>Object.prototype\<close>, which changes the prototype
  of the object (or nothing) and creates no property.
\<close>

definition objSet :: "string \<Rightarrow> 'v \<Rightarrow> (string \<times> 'v) list \<Rightarrow> (string \<times> 'v) list" where
  "objSet k v obj =
     (if k = ''__proto__'' \<and> map_of obj k = None then obj else objDefine k v obj)"

text \<open>
  The read \<open>obj[k]\<close> on an ordinary object: an own property, else what
  \<open>Object.prototype\<close> holds under that name (a function, or the prototype itself for
  \<open>__proto__\<close>), else \<open>undefined\<close>.
\<close>

definition objectPrototypeNames :: "string list" where
  "objectPrototypeNames =
     [''constructor'', ''__defineGetter__'', ''__defineSetter__'', ''hasOwnProperty'',
      ''__lookupGetter__'', ''__lookupSetter__'', ''isPrototypeOf'', ''propertyIsEnumerable'',
      ''toString'', ''valueOf'', ''__proto__'', ''toLocaleString'']"

datatype 'v property = Own 'v | Inherited | Missing

definition objGet :: "(string \<times> 'v) list \<Rightarrow> string \<Rightarrow> 'v property" where
  "objGet obj k =
     (case map_of obj k of
        Some v \<Rightarrow> Own v
      | None \<Rightarrow> if k \<in> set objectPrototypeNames then Inherited else Missing)"

text \<open>\<open>delete obj[k]\<close>, \<open>Object.values(obj)\<close>, \<open>Object.keys(obj)\<close>.\<close>

definition objDelete :: "'k \<Rightarrow> ('k \<times> 'v) list \<Rightarrow> ('k \<times> 'v) list" where
  "objDelete k obj = AList.delete k obj"

definition objValues :: "('k \<times> 'v) list \<Rightarrow> 'v list" where
  "objValues obj = map snd obj"

definition objKeys :: "('k \<times> 'v) list \<Rightarrow> 'k list" where
  "objKeys obj = map fst obj"

text \<open>
  \<open>JSON.parse\<close> of an object: the members of the text are defined one after the other,
  so a repeated key keeps its first place and its last value, and a member named
  \<open>__proto__\<close> is a property like any other.
\<close>

definition parseObject :: "(string \<times> 'v) list \<Rightarrow> (string \<times> 'v) list" where
  "parseObject members = foldl (\<lambda>obj (k, v). objDefine k v obj) [] members"

text \<open>The same for an object whose keys are never array indices (the method names).\<close>

definition parseMembers :: "('k \<times> 'v) list \<Rightarrow> ('k \<times> 'v) list" where
  "parseMembers members = foldl (\<lambda>obj (k, v). AList.update k v obj) [] members"

section \<open>Table synthesizer\<close>

definition schemaDir :: "path \<Rightarrow> path" where
  "schemaDir root = resolveFromRoot root ''src/db/schema''"

definition archiveDir :: "path \<Rightarrow> path" where
  "archiveDir root = pathJoin (schemaDir root) [''_archive'']"

definition typeMap :: "columnType \<Rightarrow> string" where
  "typeMap t = (case t of TInteger \<Rightarrow> ''integer'' | TText \<Rightarrow> ''text''
                | TReal \<Rightarrow> ''real'' | TBoolean \<Rightarrow> ''integer'')"

text \<open>\<open>formatDefault\<close>; \<open>None\<close> is \<open>undefined\<close>.\<close>

definition formatDefault :: "defaultValue option \<Rightarrow> string option" where
  \<open>formatDefault d =
     (case d of
        Some (DefString v) \<Rightarrow> Some (''"'' @ v @ ''"'')
      | None \<Rightarrow> None
      | Some (DefNumber v) \<Rightarrow> Some v
      | Some (DefBoolean b) \<Rightarrow> Some (if b then ''true'' else ''false''))\<close>

definition onDeleteText :: "onDeleteAction \<Rightarrow> string" where
  "onDeleteText a = (case a of Cascade \<Rightarrow> ''cascade'' | Restrict \<Rightarrow> ''restrict''
                     | SetNull \<Rightarrow> ''set null'' | NoAction \<Rightarrow> ''no action'')"

text \<open>
  \<open>columnToString\<close>: the builder call, then the modifiers in the order of the source:
  boolean annotation, primary key, not-null, default, foreign-key reference.
\<close>

definition columnToString :: "Column \<Rightarrow> string \<Rightarrow> string \<Rightarrow> string" where
  \<open>columnToString column tableId tblName =
     (let identifier = toIdentifier (col_name column);
          b0 = typeMap (col_type column) @ ''("'' @ col_name column @ ''")'';
          b1 = (if col_type column = TBoolean then b0 @ ''.$type<boolean>()'' else b0);
          b2 = (if col_primaryKey column = Some True
                then b1 @ ''.primaryKey(''
                      @ (if col_autoIncrement column = Some True
                         then ''{ autoIncrement: true }'' else '''')
                      @ '')''
                else b1);
          b3 = (if col_notNull column = Some True then b2 @ ''.notNull()'' else b2);
          b4 = (case formatDefault (col_default column) of
                  Some d \<Rightarrow> b3 @ ''.default('' @ d @ '')''
                | None \<Rightarrow> b3);
          b5 = (case col_fk column of
                  Some fk \<Rightarrow>
                    (let fkTable = (if fk_table fk = tblName then tableId
                                    else toIdentifier (fk_table fk));
                         fkColumn = toIdentifier (fk_column fk);
                         onDelete = (case fk_onDelete fk of
                                       Some a \<Rightarrow> ''{ onDelete: "'' @ onDeleteText a @ ''" }''
                                     | None \<Rightarrow> ''undefined'')
                     in b4 @ ''.references(() => '' @ fkTable @ ''.'' @ fkColumn @ '', ''
                          @ onDelete @ '')'')
                | None \<Rightarrow> b4)
      in identifier @ '': '' @ b5)\<close>

text \<open>\<open>set.add(x)\<close> on a \<open>Set\<close> kept as the list of its members in insertion order.\<close>

definition setAdd :: "'a list \<Rightarrow> 'a \<Rightarrow> 'a list" where
  "setAdd members x = (if x \<in> set members then members else members @ [x])"

text \<open>\<open>buildImports\<close>: the builders in use and \<open>sqliteTable\<close>, sorted.\<close>

definition buildImports :: "TablePayload \<Rightarrow> string" where
  "buildImports payload =
     ''import { ''
     @ join '', '' (sort (foldl setAdd [''sqliteTable'']
                            (map (\<lambda>column. typeMap (col_type column)) (columns payload))))
     @ '' } from 'drizzle-orm/sqlite-core';''"

text \<open>\<open>buildForeignKeyImports\<close>: one import per referenced table other than the table itself.\<close>

definition foreignTables :: "TablePayload \<Rightarrow> string list" where
  "foreignTables payload =
     foldl setAdd []
       (concat (map (\<lambda>column. case col_fk column of
                        Some fk \<Rightarrow> (if fk_table fk \<noteq> tableName payload then [fk_table fk] else [])
                      | None \<Rightarrow> [])
                  (columns payload)))"

definition buildForeignKeyImports :: "TablePayload \<Rightarrow> string" where
  "buildForeignKeyImports payload =
     join ''\<newline>''
       (map (\<lambda>t. ''import { '' @ toIdentifier t @ '' } from './'' @ t @ [CHR 0x27] @ '';'')
          (foreignTables payload))"

definition generateTableContent :: "TablePayload \<Rightarrow> string" where
  "generateTableContent payload =
     (let imports = buildImports payload;
          fkImports = buildForeignKeyImports payload;
          tableId = toIdentifier (tableName payload);
          cols = join '',\<newline>  ''
                   (map (\<lambda>column. columnToString column tableId (tableName payload))
                      (columns payload));
          headerComment = (case displayName payload of
                             None \<Rightarrow> []
                           | Some d \<Rightarrow> if d = [] then [] else ''// '' @ d @ ''\<newline>'');
          fkSection = (if fkImports = [] then [] else ''\<newline>'' @ fkImports)
      in headerComment @ imports @ (if fkSection = [] then [] else ''\<newline>'' @ fkSection)
         @ ''\<newline>\<newline>export const '' @ tableId @ '' = sqliteTable('' @ [CHR 0x27]
         @ tableName payload @ [CHR 0x27] @ '', {\<newline>  '' @ cols @ ''\<newline>});\<newline>'')"

text \<open>
  \<open>updateSchemaIndex\<close>: the \<open>.ts\<close> entries of the schema directory other than
  \<open>index.ts\<close> and those starting with \<open>_\<close>, sorted, one re-export each.
\<close>

definition indexedFiles :: "path \<Rightarrow> fs \<Rightarrow> string list" where
  "indexedFiles root s =
     sort (filter (\<lambda>file. endsWith file ''.ts'' \<and> file \<noteq> ''index.ts'' \<and> \<not> startsWith file ''_'')
             (listFiles (schemaDir root) s))"

definition exportLine :: "string \<Rightarrow> string" where
  "exportLine file = ''export * from './'' @ basenameTs file @ [CHR 0x27] @ '';''"

definition indexContent :: "string list \<Rightarrow> string" where
  "indexContent files =
     (let exports = join ''\<newline>'' (map exportLine files)
      in ''// Auto-generated schema exports\<newline>''
         @ (if exports = [] then ''export {};\<newline>'' else exports))"

definition indexFile :: "path \<Rightarrow> path" where
  "indexFile root = pathJoin (schemaDir root) [''index.ts'']"

definition updateSchemaIndex :: "path \<Rightarrow> fs \<Rightarrow> unit outcome" where
  "updateSchemaIndex root s =
     writeTextFile (indexFile root) (Text (indexContent (indexedFiles root s))) s"

text \<open>\<open>dropTable\<close>: the storage engine runs the statement or throws.\<close>

definition dropTable :: "collaborators \<Rightarrow> string \<Rightarrow> fs \<Rightarrow> unit outcome" where
  "dropTable env tblName s =
     (if sqliteRuns env (dropStatement tblName) then Done () s
      else Threw (SqliteError (dropStatement tblName)) s)"

definition tableFile :: "path \<Rightarrow> string \<Rightarrow> path" where
  "tableFile root tblName = pathJoin (schemaDir root) [tblName @ ''.ts'']"

definition archivedFile :: "path \<Rightarrow> string \<Rightarrow> nat \<Rightarrow> path" where
  "archivedFile root tblName t =
     pathJoin (archiveDir root) [tblName @ ''-'' @ showNat t @ ''.ts'']"

definition upsertTable :: "collaborators \<Rightarrow> path \<Rightarrow> TablePayload \<Rightarrow> fs \<Rightarrow> string outcome" where
  "upsertTable env root payload s =
     andThen (writeTextFile (tableFile root (tableName payload))
                (Text (generateTableContent payload)) s) (\<lambda>s.
     andThen (updateSchemaIndex root s) (\<lambda>s.
     andThen (runDrizzle env s) (\<lambda>s.
     Done (''Table '' @ tableName payload @ '' synced.'') s)))"

text \<open>
  The first block of \<open>deleteTable\<close>: where the schema artifact exists, it is moved to
  \<open>_archive/<tableName>-<Date.now()>.ts\<close>.
\<close>

definition archivePhase :: "collaborators \<Rightarrow> path \<Rightarrow> string \<Rightarrow> fs \<Rightarrow> unit outcome" where
  "archivePhase env root tblName s =
     (if fileExists (tableFile root tblName) s
      then andThen (ensureDir (archiveDir root) s)
             (moveFile (tableFile root tblName) (archivedFile root tblName (clock env)))
      else Done () s)"

definition deleteTable :: "collaborators \<Rightarrow> path \<Rightarrow> string \<Rightarrow> fs \<Rightarrow> string outcome" where
  "deleteTable env root tblName s =
     andThen (archivePhase env root tblName s) (\<lambda>s.
     andThen (updateSchemaIndex root s) (\<lambda>s.
     andThen (dropTable env tblName s) (\<lambda>s.
     andThen (runDrizzle env s) (\<lambda>s.
     Done (''Table '' @ tblName @ '' archived.'') s))))"

section \<open>Endpoint synthesizer\<close>

definition endpointManifestPath :: "path \<Rightarrow> path" where
  "endpointManifestPath root = resolveFromRoot root ''src/app/api/manifest.json''"

text \<open>
  \<open>readManifest\<close>: path key to method group, empty where the file cannot be read or
  parsed. Every value of a method group is a configuration object.
\<close>

definition readEndpointManifest :: "path \<Rightarrow> fs \<Rightarrow> (string \<times> (httpMethod \<times> EndpointConfig) list) list" where
  "readEndpointManifest root s =
     (case lookup s (endpointManifestPath root) of
        Some (File (EndpointManifestJson members)) \<Rightarrow>
          map (\<lambda>(k, g). (k, parseMembers g)) (parseObject members)
      | _ \<Rightarrow> [])"

definition writeEndpointManifest ::
  "path \<Rightarrow> (string \<times> (httpMethod \<times> EndpointConfig) list) list \<Rightarrow> fs \<Rightarrow> unit outcome" where
  "writeEndpointManifest root manifest s =
     writeTextFile (endpointManifestPath root) (EndpointManifestJson manifest) s"

text \<open>The white space \<open>trim\<close> removes, among the code units below 256.\<close>

definition isJsSpace :: "char \<Rightarrow> bool" where
  "isJsSpace c = (c \<in> set [CHR 0x09, CHR 0x0A, CHR 0x0B, CHR 0x0C, CHR 0x0D, CHR 0x20, CHR 0xA0])"

definition trim :: "string \<Rightarrow> string" where
  "trim s = rev (dropWhile isJsSpace (rev (dropWhile isJsSpace s)))"

definition normalizeApiPath :: "string \<Rightarrow> string" where
  "normalizeApiPath apiPath =
     (let n0 = trim apiPath;
          n1 = (if \<not> startsWith n0 ''/'' then ''/'' @ n0 else n0);
          n2 = (if \<not> startsWith n1 ''/api'' then ''/api'' @ n1 else n1)
      in stripTrailingSlash n2)"

text \<open>\<open>routeSegments\<close>: \<open>apiPath.replace(/^\/api/, '')\<close>, then the segments as for a route.\<close>

definition routeSegments :: "string \<Rightarrow> string list" where
  "routeSegments apiPath =
     (let withoutApi = (if startsWith apiPath ''/api'' then drop 4 apiPath else apiPath)
      in map (\<lambda>segment. if startsWith segment '':'' then bracket segment else segment)
           (nonEmptySegments withoutApi))"

definition routeFilePath :: "path \<Rightarrow> string \<Rightarrow> path" where
  "routeFilePath root pathKey =
     pathJoin (resolveFromRoot root ''src/app/api'') (routeSegments pathKey @ [''route.ts''])"

definition methodName :: "httpMethod \<Rightarrow> string" where
  "methodName m = (case m of GET \<Rightarrow> ''GET'' | POST \<Rightarrow> ''POST'' | DELETE \<Rightarrow> ''DELETE'')"

text \<open>\<open>method.toLowerCase()\<close>.\<close>

definition methodAlias :: "httpMethod \<Rightarrow> string" where
  "methodAlias m = (case m of GET \<Rightarrow> ''get'' | POST \<Rightarrow> ''post'' | DELETE \<Rightarrow> ''delete'')"

definition buildSourceResolver :: string where
  "buildSourceResolver =
     ''type RouteContext = { params: Record<string, string> };\<newline>''
     @ ''\<newline>''
     @ ''type SourceBag = {\<newline>''
     @ ''  body?: Record<string, any>;\<newline>''
     @ ''  query: URLSearchParams;\<newline>''
     @ ''  params: Record<string, string>;\<newline>''
     @ ''};\<newline>''
     @ ''\<newline>''
     @ ''function readFromSource(source: string, bag: SourceBag) {\<newline>''
     @ ''  if (!source) return undefined;\<newline>''
     @ ''  const [scope, ...rest] = source.split('.');\<newline>''
     @ ''  if (scope === 'body') {\<newline>''
     @ ''    return rest.reduce((acc, key) => (acc ? acc[key] : undefined), bag.body);\<newline>''
     @ ''  }\<newline>''
     @ ''  if (scope === 'query') {\<newline>''
     @ ''    return bag.query.get(rest.join('.')) ?? undefined;\<newline>''
     @ ''  }\<newline>''
     @ ''  if (scope === 'params') {\<newline>''
     @ ''    return bag.params[rest.join('.')];\<newline>''
     @ ''  }\<newline>''
     @ ''  return undefined;\<newline>''
     @ ''}\<newline>''"

definition comparatorName :: "cmpOp \<Rightarrow> string" where
  "comparatorName c = (case c of OpEq \<Rightarrow> ''eq'' | OpNe \<Rightarrow> ''ne'' | OpGt \<Rightarrow> ''gt''
                       | OpGte \<Rightarrow> ''gte'' | OpLt \<Rightarrow> ''lt'' | OpLte \<Rightarrow> ''lte'')"

definition operatorExpression :: "cmpOp \<Rightarrow> string \<Rightarrow> string \<Rightarrow> string \<Rightarrow> string" where
  "operatorExpression c tbl col valueVar =
     comparatorName c @ ''('' @ toIdentifier tbl @ ''.'' @ toIdentifier col @ '', '' @ valueVar @ '')''"

text \<open>\<open>config.where ?? []\<close> and \<open>config.fieldMapping ?? {}\<close>.\<close>

definition conditions :: "EndpointConfig \<Rightarrow> WhereCondition list" where
  "conditions config = (case ep_where config of Some cs \<Rightarrow> cs | None \<Rightarrow> [])"

definition fieldEntries :: "EndpointConfig \<Rightarrow> (string \<times> string) list" where
  "fieldEntries config = (case ep_fieldMapping config of Some fm \<Rightarrow> fm | None \<Rightarrow> [])"

definition whereLine :: "EndpointConfig \<Rightarrow> string \<Rightarrow> nat \<times> WhereCondition \<Rightarrow> string" where
  "whereLine config alias ic =
     (case ic of (index, condition) \<Rightarrow>
        (let valueVar = alias @ ''Value'' @ showNat index
         in ''  const ''
          @ valueVar
          @ '' = readFromSource(''
          @ [CHR 0x27]
          @ wc_source condition
          @ [CHR 0x27]
          @ '', bag);\<newline>''
          @ ''  if (''
          @ valueVar
          @ '' !== undefined && ''
          @ valueVar
          @ '' !== null) {\<newline>''
          @ ''    filters.push(''
          @ operatorExpression (wc_op condition) (ep_table config) (wc_column condition) valueVar
          @ '');\<newline>''
          @ ''  }''))"

definition buildWhereClauses :: "EndpointConfig \<Rightarrow> string \<Rightarrow> string" where
  "buildWhereClauses config alias =
     (let ls = map (whereLine config alias) (enumerate 0 (conditions config))
      in if ls \<noteq> [] then
           ''  const filters: any[] = [];\<newline>''
           @ join ''\<newline>'' ls
           @ ''\<newline>''
           @ ''  const whereClause = filters.length === 0 ? undefined : filters.length ''
           @ ''=== 1 ? filters[0] : and(...filters);\<newline>''
         else ''  const whereClause = undefined;\<newline>'')"

definition needsBody :: "EndpointConfig \<Rightarrow> bool" where
  "needsBody config =
     list_ex (\<lambda>source. startsWith source ''body.'')
       (map snd (fieldEntries config) @ map wc_source (conditions config))"

definition buildFieldMapping :: "EndpointConfig \<Rightarrow> string" where
  "buildFieldMapping config =
     (if fieldEntries config = [] then ''  const values = {} as Record<string, any>;\<newline>''
      else (let ls = map (\<lambda>(col, source).
                           ''    '' @ col @ '': readFromSource('' @ [CHR 0x27] @ source
                           @ [CHR 0x27] @ '', bag)'')
                       (fieldEntries config)
            in ''  const values = {\<newline>''
           @ join '',\<newline>'' ls
           @ ''\<newline>''
           @ ''  } as Record<string, any>;\<newline>''))"

definition requiresBody :: "EndpointConfig \<Rightarrow> bool" where
  "requiresBody config = (needsBody config \<or> ep_action config = Insert)"

definition operationBlock :: "EndpointConfig \<Rightarrow> string" where
  "operationBlock config =
     (let tableId = toIdentifier (ep_table config)
      in case ep_action config of
           Select \<Rightarrow>
              ''  let query = db.select().from(''
              @ tableId
              @ '');\<newline>''
              @ ''  if (whereClause) {\<newline>''
              @ ''    query = query.where(whereClause);\<newline>''
              @ ''  }\<newline>''
              @ ''  const data = await query;\<newline>''
              @ ''  return NextResponse.json({ ok: true, data });''
         | Insert \<Rightarrow>
              buildFieldMapping config
              @ ''  const result = await db.insert(''
              @ tableId
              @ '').values(values).returning();\<newline>''
              @ ''  return NextResponse.json({ ok: true, data: result });''
         | Delete \<Rightarrow>
              ''  if (!whereClause) {\<newline>''
              @ ''    throw new Error('Delete endpoint requires a where clause.');\<newline>''
              @ ''  }\<newline>''
              @ ''  const result = await db.delete(''
              @ tableId
              @ '').where(whereClause).returning();\<newline>''
              @ ''  return NextResponse.json({ ok: true, data: result });'')"

definition buildMethodHandler :: "httpMethod \<Rightarrow> EndpointConfig \<Rightarrow> string" where
  "buildMethodHandler m config =
     (let whereLine = buildWhereClauses config (methodAlias m);
          bodyLine = (if requiresBody config then ''  const body = await request.json();\<newline>''
                      else ''  const body = undefined;\<newline>'');
          bagLine = ''  const bag: SourceBag = { body, query: request.nextUrl.searchParams, params } as SourceBag;\<newline>'';
          operationBlock = operationBlock config
      in ''export async function ''
         @ methodName m
         @ ''(request: NextRequest, context: RouteContext) {\<newline>''
         @ ''  try {\<newline>''
         @ ''    const params = context?.params ?? {};\<newline>''
         @ bodyLine
         @ bagLine
         @ whereLine
         @ operationBlock
         @ ''\<newline>''
         @ ''  } catch (error) {\<newline>''
         @ ''    console.error(error);\<newline>''
         @ ''    return NextResponse.json({ ok: false, error: (error as Error).message ''
         @ ''}, { status: 500 });\<newline>''
         @ ''  }\<newline>''
         @ ''}\<newline>'')"

text \<open>\<open>collectComparatorImports\<close>: the \<open>Set\<close> of comparator names, in insertion order.\<close>

definition configImports :: "string list \<Rightarrow> EndpointConfig \<Rightarrow> string list" where
  "configImports imports config =
     (let i1 = (if 0 < length (conditions config) then setAdd imports ''and'' else imports);
          i2 = foldl (\<lambda>acc condition. setAdd acc (comparatorName (wc_op condition))) i1
                 (conditions config)
      in if 1 < length (conditions config) then setAdd i2 ''and'' else i2)"

definition collectComparatorImports :: "(httpMethod \<times> EndpointConfig) list \<Rightarrow> string list" where
  "collectComparatorImports methods = foldl configImports [] (objValues methods)"

text \<open>
  \<open>buildRouteFile\<close>: the empty text for an empty method group; otherwise the imports and
  the source resolver, then one handler per entry of the group, joined by line breaks.
\<close>

definition routePreamble :: "(httpMethod \<times> EndpointConfig) list \<Rightarrow> string" where
  "routePreamble methods =
     (let tables = foldl setAdd [] (map (\<lambda>(m, config). ep_table config) methods);
          tableImports = join ''\<newline>''
            (map (\<lambda>t. ''import { '' @ toIdentifier t @ '' } from '' @ [CHR 0x27] @ ''@/db/schema/''
                         @ t @ [CHR 0x27] @ '';'') tables);
          comparatorImports = collectComparatorImports methods;
          comparatorLine = (if comparatorImports \<noteq> []
                            then ''import { '' @ join '', '' comparatorImports
                                 @ '' } from 'drizzle-orm';\<newline>''
                            else [])
      in ''import { NextRequest, NextResponse } from 'next/server';\<newline>''
         @ ''import { db } from '@/db/client';\<newline>''
         @ tableImports
         @ ''\<newline>''
         @ comparatorLine
         @ buildSourceResolver)"

definition handlerTexts :: "(httpMethod \<times> EndpointConfig) list \<Rightarrow> string list" where
  "handlerTexts methods = map (\<lambda>(m, config). buildMethodHandler m config) methods"

definition buildRouteFile :: "string \<Rightarrow> (httpMethod \<times> EndpointConfig) list \<Rightarrow> string" where
  "buildRouteFile pathKey methods =
     (if methods = [] then []
      else routePreamble methods @ join ''\<newline>'' (handlerTexts methods))"

definition writeRouteFile :: "path \<Rightarrow> string \<Rightarrow> (httpMethod \<times> EndpointConfig) list \<Rightarrow> fs \<Rightarrow> unit outcome" where
  "writeRouteFile root pathKey methods s =
     (let content = buildRouteFile pathKey methods;
          filePath = routeFilePath root pathKey
      in if content = [] then
           (if fileExists filePath s then removeFile filePath s else Done () s)
         else andThen (ensureDir (dirname filePath) s) (writeTextFile filePath (Text content)))"


definition deleteEndpoint :: "path \<Rightarrow> string \<Rightarrow> httpMethod \<Rightarrow> fs \<Rightarrow> string outcome" where
  "deleteEndpoint root apiPath m s =
     (let manifest = readEndpointManifest root s;
          pathKey = normalizeApiPath apiPath
      in case map_of manifest pathKey of
           None \<Rightarrow> Done ''Endpoint already removed.'' s
         | Some g \<Rightarrow>
             (let grp = objDelete m g;
                  manifest' = (if objKeys grp = [] then objDelete pathKey manifest
                               else objSet pathKey grp manifest)
              in andThen (writeEndpointManifest root manifest' s) (\<lambda>s.
                 andThen (writeRouteFile root pathKey grp s) (\<lambda>s.
                 Done (''Endpoint '' @ methodName m @ '' '' @ pathKey @ '' removed.'') s))))"

section \<open>The generated handlers at request time\<close>

text \<open>
  What the text emitted by \<open>buildMethodHandler\<close> does when the route is called, read off
  the emitted statements in their order: the body is read where the configuration needs
  it, the source bag is built, each \<open>where\<close> condition pushes a filter unless its value is
  \<open>undefined\<close> or \<open>null\<close>, and the one storage operation runs; whatever is thrown
  inside is caught and answered with status 500 and the error's message. A source is
  interpolated into the text between single quotes, and the handler resolves the string
  that this literal denotes: the source itself where it is a \<open>plainLiteral\<close>.
\<close>

text \<open>
  Values of the request: what \<open>request.json()\<close>, the query string and the path
  parameters yield. Numbers are carried as integers; the handler only tests a value for
  being \<open>undefined\<close>, \<open>null\<close> or falsy and hands it to a comparator. An object is the
  list of its own properties. \<open>JBuiltin\<close> is a value of the runtime itself, named: a
  function or an object found on a prototype.
\<close>

datatype jsval =
    JUndefined | JNull | JBool bool | JNum int | JStr string
  | JArr "jsval list" | JObj "(string \<times> jsval) list" | JBuiltin string


definition truthy :: "jsval \<Rightarrow> bool" where
  "truthy v = (case v of JUndefined \<Rightarrow> False | JNull \<Rightarrow> False | JBool b \<Rightarrow> b
               | JNum n \<Rightarrow> n \<noteq> 0 | JStr s \<Rightarrow> s \<noteq> [] | JArr xs \<Rightarrow> True | JObj ps \<Rightarrow> True
               | JBuiltin name \<Rightarrow> True)"

text \<open>
  The environment of a handler. What a value inherits under a key from its prototypes
  (the members of \<open>Object.prototype\<close>, \<open>Array.prototype\<close>, \<open>String.prototype\<close> and so
  on, \<open>undefined\<close> where there is none) belongs to the runtime. How a comparator
  decides on a row, which filters the storage engine refuses and with what message, what
  an insert stores and returns, and the message for a missing table belong to the
  engine. All of them are parameters.
\<close>

type_synonym row = "(string \<times> jsval) list"

type_synonym database = "(string \<times> row list) list"

datatype filterExpr = Compare cmpOp string string jsval | AndAll "filterExpr list"

record engine =
  inherited :: "jsval \<Rightarrow> string \<Rightarrow> jsval"
  matches :: "filterExpr \<Rightarrow> row \<Rightarrow> bool"
  refuses :: "filterExpr \<Rightarrow> database \<Rightarrow> string option"
  insertInto :: "string \<Rightarrow> row \<Rightarrow> database \<Rightarrow> string + (row list \<times> database)"
  noSuchTable :: "string \<Rightarrow> string"

text \<open>
  \<open>acc[key]\<close>: an own property of an object, an element or the length of an array or a
  string; where the value has no own property of that name, what it inherits.
\<close>

definition elementAt :: "'a list \<Rightarrow> string \<Rightarrow> 'a option" where
  "elementAt xs key =
     (case arrayIndex key of
        Some i \<Rightarrow> if nat i < length xs then Some (xs ! nat i) else None
      | None \<Rightarrow> None)"

definition ownMember :: "jsval \<Rightarrow> string \<Rightarrow> jsval option" where
  "ownMember v key =
     (case v of
        JObj ps \<Rightarrow> map_of ps key
      | JArr xs \<Rightarrow> (if key = ''length'' then Some (JNum (int (length xs))) else elementAt xs key)
      | JStr s \<Rightarrow> (if key = ''length'' then Some (JNum (int (length s)))
                   else map_option (\<lambda>c. JStr [c]) (elementAt s key))
      | _ \<Rightarrow> None)"

definition getMember :: "engine \<Rightarrow> jsval \<Rightarrow> string \<Rightarrow> jsval" where
  "getMember eng v key =
     (case ownMember v key of Some x \<Rightarrow> x | None \<Rightarrow> inherited eng v key)"

text \<open>
  The bag of sources: the body, the query parameters (\<open>get\<close> gives the first value of a
  name), and \<open>params\<close>, the value of \<open>context?.params ?? {}\<close>.
\<close>

record SourceBag =
  bag_body :: jsval
  bag_query :: "(string \<times> string) list"
  bag_params :: jsval

text \<open>\<open>readFromSource\<close> of the emitted source resolver.\<close>

definition readFromSource :: "engine \<Rightarrow> string \<Rightarrow> SourceBag \<Rightarrow> jsval" where
  "readFromSource eng source bag =
     (if source = [] then JUndefined
      else (let parts = split_on (CHR ''.'') source; scope = hd parts; rest = tl parts
            in if scope = ''body''
               then foldl (\<lambda>acc key. if truthy acc then getMember eng acc key else JUndefined)
                      (bag_body bag) rest
               else if scope = ''query''
               then (case map_of (bag_query bag) (join ''.'' rest) of
                       Some v \<Rightarrow> JStr v | None \<Rightarrow> JUndefined)
               else if scope = ''params''
               then getMember eng (bag_params bag) (join ''.'' rest)
               else JUndefined))"



definition whereClause :: "filterExpr list \<Rightarrow> filterExpr option" where
  "whereClause filters =
     (if length filters = 0 then None
      else if length filters = 1 then Some (hd filters) else Some (AndAll filters))"





section \<open>Route synthesizer\<close>

definition routeManifestPath :: "path \<Rightarrow> path" where
  "routeManifestPath root = resolveFromRoot root ''src/app/_generated/routes/manifest.json''"

definition readRouteManifest :: "path \<Rightarrow> fs \<Rightarrow> (string \<times> RoutePayload) list" where
  "readRouteManifest root s =
     (case lookup s (routeManifestPath root) of
        Some (File (RouteManifestJson members)) \<Rightarrow> parseObject members
      | _ \<Rightarrow> [])"

text \<open>\<open>routeDir\<close>: \<open>path.join(resolveFromRoot('src/app'), ...pathSegments(routePath))\<close>.\<close>

definition routeDir :: "path \<Rightarrow> string \<Rightarrow> path" where
  "routeDir root routePath = pathJoin (resolveFromRoot root ''src/app'') (pathSegments routePath)"

definition ensureRoute :: "path \<Rightarrow> string \<Rightarrow> fs \<Rightarrow> unit outcome" where
  "ensureRoute root routePath s = ensureDir (routeDir root (normalizeRoutePath routePath)) s"

text \<open>
  \<open>upsertRoute\<close>: the manifest entry under the normalized path, then the page artifact,
  kept as the route path, the breadcrumbs and the page name its text is printed from.
\<close>

definition upsertRoute :: "path \<Rightarrow> RoutePayload \<Rightarrow> fs \<Rightarrow> string outcome" where
  "upsertRoute root payload s =
     (let routePath = normalizeRoutePath (route_path payload);
          manifest = objSet routePath payload (readRouteManifest root s);
          filePath = pathJoin (routeDir root routePath) [''page.tsx'']
      in andThen (writeTextFile (routeManifestPath root) (RouteManifestJson manifest) s) (\<lambda>s.
         andThen (ensureDir (dirname filePath) s) (\<lambda>s.
         andThen (writeTextFile filePath
                    (RoutePageSource routePath (breadcrumbs routePath) (pageName payload)) s) (\<lambda>s.
         Done (''Route '' @ routePath @ '' generated.'') s))))"

text \<open>
  \<open>ensureDynamicRoute\<close>: the directory \<open>[id]\<close> below the route's directory and the detail
  page in it, whose options carry the normalized route path.
\<close>

definition detailDir :: "path \<Rightarrow> string \<Rightarrow> path" where
  "detailDir root routePath = pathJoin (routeDir root (normalizeRoutePath routePath)) [''[id]'']"

definition detailPage :: "path \<Rightarrow> string \<Rightarrow> path" where
  "detailPage root routePath = pathJoin (detailDir root routePath) [''page.tsx'']"

definition ensureDynamicRoute :: "path \<Rightarrow> string \<Rightarrow> DynamicRouteOptions \<Rightarrow> fs \<Rightarrow> unit outcome" where
  "ensureDynamicRoute root routePath options s =
     andThen (ensureDir (detailDir root routePath) s)
       (writeTextFile (detailPage root routePath)
          (DetailPageSource (options\<lparr>dro_routePath := normalizeRoutePath routePath\<rparr>)))"


section \<open>Template synthesizer\<close>

definition templateManifestPath :: "path \<Rightarrow> path" where
  "templateManifestPath root = resolveFromRoot root ''src/app/_generated/templates/manifest.json''"

definition registryPath :: "path \<Rightarrow> path" where
  "registryPath root = resolveFromRoot root ''src/app/_generated/templates/registry.ts''"

definition readTemplateManifest :: "path \<Rightarrow> fs \<Rightarrow> (string \<times> TemplateEntry) list" where
  "readTemplateManifest root s =
     (case lookup s (templateManifestPath root) of
        Some (File (TemplateManifestJson members)) \<Rightarrow> parseObject members
      | _ \<Rightarrow> [])"

definition templateFilePath :: "path \<Rightarrow> string \<Rightarrow> path" where
  "templateFilePath root templateId =
     pathJoin (resolveFromRoot root ''src/app/_generated/templates'') [templateId @ ''.tsx'']"

text \<open>
  \<open>updateRegistry\<close>: the entries grouped by route path (the \<open>reduce\<close> into a record of
  lists); the registry source is kept as these groups of template ids.
\<close>

definition groupByRoute :: "TemplateEntry list \<Rightarrow> (string \<times> string list) list" where
  "groupByRoute entries =
     foldl (\<lambda>acc entry.
              objSet (te_routePath entry)
                ((case map_of acc (te_routePath entry) of Some ids \<Rightarrow> ids | None \<Rightarrow> [])
                 @ [te_templateId entry]) acc)
       [] entries"

definition updateRegistry :: "path \<Rightarrow> (string \<times> TemplateEntry) list \<Rightarrow> fs \<Rightarrow> unit outcome" where
  "updateRegistry root manifest s =
     (if objValues manifest = [] then writeTextFile (registryPath root) (RegistrySource []) s
      else writeTextFile (registryPath root) (RegistrySource (groupByRoute (objValues manifest))) s)"

text \<open>The components of type \<open>table\<close> with \<open>dynamicRouting\<close> set.\<close>

fun isDynamicTable :: "Component \<Rightarrow> bool" where
  "isDynamicTable (TableComponent i l t cs ds dyn) = (dyn = Some True)"
| "isDynamicTable c = False"

text \<open>
  \<open>ensureDynamicPages\<close>: one \<open>ensureDynamicRoute\<close> per dynamic table. The source starts
  them together (\<open>Promise.all\<close>); all of them create the same directory and write the same
  file, and the model runs them one after the other in the order of the components.
\<close>

fun ensureAll :: "(fs \<Rightarrow> unit outcome) list \<Rightarrow> fs \<Rightarrow> unit outcome" where
  "ensureAll [] s = Done () s"
| "ensureAll (step # steps) s = andThen (step s) (ensureAll steps)"

definition ensureDynamicPages :: "path \<Rightarrow> TemplatePayload \<Rightarrow> fs \<Rightarrow> unit outcome" where
  "ensureDynamicPages root payload s =
     ensureAll
       (map (\<lambda>tbl. ensureDynamicRoute root (tp_routePath payload)
                \<lparr>dro_routePath = tp_routePath payload,
                 dro_endpointPath = ds_endpointPath (comp_dataSource tbl),
                 dro_primaryKey = ds_primaryKey (comp_dataSource tbl)\<rparr>)
          (filter isDynamicTable (tp_components payload))) s"

definition upsertTemplate :: "path \<Rightarrow> TemplatePayload \<Rightarrow> fs \<Rightarrow> string outcome" where
  "upsertTemplate root payload s =
     (let manifest = objSet (tp_templateId payload)
                       \<lparr>te_templateId = tp_templateId payload, te_routePath = tp_routePath payload\<rparr>
                       (readTemplateManifest root s);
          filePath = templateFilePath root (tp_templateId payload)
      in andThen (ensureRoute root (tp_routePath payload) s) (\<lambda>s.
         andThen (ensureDynamicPages root payload s) (\<lambda>s.
         andThen (writeTextFile (templateManifestPath root) (TemplateManifestJson manifest) s) (\<lambda>s.
         andThen (ensureDir (dirname filePath) s) (\<lambda>s.
         andThen (writeTextFile filePath (TemplateSource payload) s) (\<lambda>s.
         andThen (updateRegistry root manifest s) (\<lambda>s.
         Done (''Template '' @ tp_templateId payload @ '' generated.'') s)))))))"

definition deleteTemplate :: "path \<Rightarrow> string \<Rightarrow> fs \<Rightarrow> string outcome" where
  "deleteTemplate root templateId s =
     (let manifest = objDelete templateId (readTemplateManifest root s)
      in andThen (writeTextFile (templateManifestPath root) (TemplateManifestJson manifest) s) (\<lambda>s.
         andThen (updateRegistry root manifest s) (\<lambda>s.
         andThen (removeFile (templateFilePath root templateId) s) (\<lambda>s.
         Done (''Template '' @ templateId @ '' removed.'') s))))"

section \<open>Layout synthesizer\<close>

definition layoutManifestPath :: "path \<Rightarrow> path" where
  "layoutManifestPath root = resolveFromRoot root ''src/app/_generated/templates/layoutManifest.json''"

definition layoutsFile :: "path \<Rightarrow> path" where
  "layoutsFile root = resolveFromRoot root ''src/app/_generated/templates/layouts.ts''"

text \<open>\<open>readManifest\<close>: the \<open>layouts\<close> object of the manifest, empty where the file cannot be read or parsed.\<close>

definition readLayoutManifest :: "path \<Rightarrow> fs \<Rightarrow> (string \<times> LayoutPayload) list" where
  "readLayoutManifest root s =
     (case lookup s (layoutManifestPath root) of
        Some (File (LayoutManifestJson members)) \<Rightarrow> parseObject members
      | _ \<Rightarrow> [])"

definition writeLayoutManifest :: "path \<Rightarrow> (string \<times> LayoutPayload) list \<Rightarrow> fs \<Rightarrow> unit outcome" where
  "writeLayoutManifest root manifest s =
     writeTextFile (layoutManifestPath root) (LayoutManifestJson manifest) s"

text \<open>
  \<open>syncLayoutsTs\<close>: the lookup artifact. Its object literal has one row per manifest
  entry, in the order of \<open>Object.values\<close>: the entry's \<open>templateId\<close> between single
  quotes, a colon, and \<open>JSON.stringify\<close> of the entry. The artifact is kept as these
  rows, each the text between the quotes and the entry. An empty manifest gives the
  literal \<open>{}\<close>.
\<close>

definition layoutRows :: "(string \<times> LayoutPayload) list \<Rightarrow> (string \<times> LayoutPayload) list" where
  "layoutRows manifest = map (\<lambda>entry. (lp_templateId entry, entry)) (objValues manifest)"

definition syncLayoutsTs :: "path \<Rightarrow> (string \<times> LayoutPayload) list \<Rightarrow> fs \<Rightarrow> unit outcome" where
  "syncLayoutsTs root manifest s =
     (if objValues manifest = [] then writeTextFile (layoutsFile root) (LayoutsSource []) s
      else writeTextFile (layoutsFile root) (LayoutsSource (layoutRows manifest)) s)"

text \<open>
  The artifact as a module. The text of an entry is an object literal of the module, and
  in a literal a member named \<open>__proto__\<close> sets the prototype of the object instead of
  defining a property: an area of that name is not among the areas of the entry read
  back.
\<close>

definition entryLiteral :: "LayoutPayload \<Rightarrow> LayoutPayload" where
  "entryLiteral entry =
     entry\<lparr>areas := filter (\<lambda>(name, ids). name \<noteq> ''__proto__'') (areas entry)\<rparr>"

text \<open>
  The object \<open>manifest\<close> of the module: the rows define its properties one after the
  other, so a later row of the same name replaces the value of an earlier one. This is
  what the literal denotes when the text of every key denotes itself and no key is
  \<open>__proto__\<close>; for any other rows the file is not this literal (it may not compile, or
  hold other keys) and the model gives no module.
\<close>

definition layoutModule :: "(string \<times> LayoutPayload) list \<Rightarrow> (string \<times> LayoutPayload) list option" where
  "layoutModule rows =
     (if list_all (\<lambda>(key, entry). plainLiteral key \<and> key \<noteq> ''__proto__'') rows
      then Some (foldl (\<lambda>obj (key, entry). objDefine key (entryLiteral entry) obj) [] rows)
      else None)"

text \<open>\<open>getLayoutForTemplate\<close> of the artifact: \<open>manifest[templateId]\<close>.\<close>

definition getLayoutForTemplate ::
  "(string \<times> LayoutPayload) list \<Rightarrow> string \<Rightarrow> LayoutPayload property option" where
  "getLayoutForTemplate rows tid =
     (case layoutModule rows of None \<Rightarrow> None | Some obj \<Rightarrow> Some (objGet obj tid))"

definition upsertLayout :: "path \<Rightarrow> LayoutPayload \<Rightarrow> fs \<Rightarrow> string outcome" where
  "upsertLayout root payload s =
     (let manifest = objSet (layoutId payload) payload (readLayoutManifest root s)
      in andThen (writeLayoutManifest root manifest s) (\<lambda>s.
         andThen (syncLayoutsTs root manifest s) (\<lambda>s.
         Done (''Layout '' @ layoutId payload @ '' applied.'') s)))"

definition deleteLayout :: "path \<Rightarrow> string \<Rightarrow> fs \<Rightarrow> string outcome" where
  "deleteLayout root lid s =
     (let manifest = objDelete lid (readLayoutManifest root s)
      in andThen (writeLayoutManifest root manifest s) (\<lambda>s.
         andThen (syncLayoutsTs root manifest s) (\<lambda>s.
         Done (''Layout '' @ lid @ '' removed.'') s)))"

section \<open>Example inputs\<close>

text \<open>
  The inputs at which the properties below are instantiated: a workspace root, the
  collaborators of a run in which every external step succeeds, and the \<open>todos\<close> table of
  the specification's concrete scenario.
\<close>

definition exampleRoot :: path where
  "exampleRoot = [''work'']"

definition exampleEnv :: collaborators where
  "exampleEnv = \<lparr>clock = 5, generateSucceeds = True, pushSucceeds = True,
                  sqliteRuns = (\<lambda>statement. True)\<rparr>"

definition todosPayload :: TablePayload where
  "todosPayload =
     \<lparr>tableName = ''todos'', displayName = None,
      columns =
        [\<lparr>col_name = ''id'', col_type = TInteger, col_primaryKey = Some True,
          col_autoIncrement = Some True, col_notNull = None, col_default = None,
          col_fk = None\<rparr>,
         \<lparr>col_name = ''title'', col_type = TText, col_primaryKey = None,
          col_autoIncrement = None, col_notNull = Some True, col_default = None,
          col_fk = None\<rparr>]\<rparr>"

text \<open>A tree in which a schema source lies one level above the schema directory.\<close>

definition strayTree :: fs where
  "strayTree =
     [([''work''], Dir), ([''work'', ''src''], Dir), ([''work'', ''src'', ''db''], Dir),
      ([''work'', ''src'', ''db'', ''x.ts''], File (Text ''export const x = 1;''))]"

text \<open>Two layouts for the same template, and a third that replaces the first.\<close>

definition layoutOne :: LayoutPayload where
  "layoutOne = \<lparr>layoutId = ''L1'', lp_templateId = ''T1'', lp_routeId = ''R1'', areas = []\<rparr>"

definition layoutTwo :: LayoutPayload where
  "layoutTwo = \<lparr>layoutId = ''L2'', lp_templateId = ''T1'', lp_routeId = ''R1'',
                 areas = [(''main'', [''title''])]\<rparr>"

definition layoutOneAgain :: LayoutPayload where
  "layoutOneAgain = \<lparr>layoutId = ''L1'', lp_templateId = ''T1'', lp_routeId = ''R1'',
                      areas = [(''side'', [''title''])]\<rparr>"

definition layoutThree :: LayoutPayload where
  "layoutThree = \<lparr>layoutId = ''L3'', lp_templateId = ''T3'', lp_routeId = ''R3'', areas = []\<rparr>"

text \<open>A template for the route \<open>/todos\<close> with an input and a dynamically routed table.\<close>

definition todosTemplate :: TemplatePayload where
  "todosTemplate =
     \<lparr>tp_templateId = ''todoList'', tp_routePath = ''/todos'',
      tp_components =
        [InputComponent ''title'' (Some ''Title'') False [],
         TableComponent ''list'' None ''todos'' None
           \<lparr>ds_endpointPath = ''/api/todos'', ds_primaryKey = ''id''\<rparr> (Some True)]\<rparr>"

text \<open>
  The endpoints of the specification's scenarios at \<open>/todos\<close>, and a delete endpoint
  declared without any \<open>where\<close> condition.
\<close>

definition getTodos :: EndpointConfig where
  "getTodos = \<lparr>ep_method = GET, ep_path = ''/todos'', ep_table = ''todos'', ep_action = Select,
                ep_fieldMapping = None,
                ep_where = Some [\<lparr>wc_column = ''id'', wc_op = OpEq, wc_source = ''query.id''\<rparr>]\<rparr>"

definition postTodos :: EndpointConfig where
  "postTodos = \<lparr>ep_method = POST, ep_path = ''/todos'', ep_table = ''todos'', ep_action = Insert,
                 ep_fieldMapping = Some [(''title'', ''body.title'')], ep_where = None\<rparr>"









text \<open>A layout whose \<open>layoutId\<close> is \<open>__proto__\<close>.\<close>

definition layoutProto :: LayoutPayload where
  "layoutProto = \<lparr>layoutId = ''__proto__'', lp_templateId = ''T9'', lp_routeId = ''R9'', areas = []\<rparr>"

text \<open>
  Two trees holding an endpoint manifest for the path \<open>/api/todos\<close>: one with the methods
  \<open>GET\<close> and \<open>POST\<close>, one with \<open>POST\<close> alone and its route artifact.
\<close>

definition apiDirs :: fs where
  "apiDirs = [([''work''], Dir), ([''work'', ''src''], Dir), ([''work'', ''src'', ''app''], Dir),
              ([''work'', ''src'', ''app'', ''api''], Dir),
              ([''work'', ''src'', ''app'', ''api'', ''todos''], Dir)]"

definition twoMethodsTree :: fs where
  "twoMethodsTree =
     apiDirs @
     [([''work'', ''src'', ''app'', ''api'', ''manifest.json''],
       File (EndpointManifestJson [(''/api/todos'', [(GET, getTodos), (POST, postTodos)])]))]"

definition onlyPostTree :: fs where
  "onlyPostTree =
     apiDirs @
     [([''work'', ''src'', ''app'', ''api'', ''manifest.json''],
       File (EndpointManifestJson [(''/api/todos'', [(POST, postTodos)])])),
      ([''work'', ''src'', ''app'', ''api'', ''todos'', ''route.ts''],
       File (Text ''export async function POST() {}''))]"

section \<open>Properties of the identifier utilities\<close>

lemma replaceNonWord_length: "length (replaceNonWord v) = length v"
  by (simp add: replaceNonWord_def)

lemma toIdentifier_no_leading_digit:
  "toIdentifier v \<noteq> [] \<Longrightarrow> \<not> isDigit (hd (toIdentifier v))"
  by (auto simp: toIdentifier_def prefixLeadingDigit_def isDigit_def split: list.splits)

lemma sanitize_differs_iff:
  "sanitizeTableIdentifier t \<noteq> toIdentifier t \<longleftrightarrow> (t \<noteq> [] \<and> isDigit (hd t))"
proof (cases t)
  case Nil
  then show ?thesis
    by (simp add: sanitizeTableIdentifier_def toIdentifier_def prefixLeadingDigit_def
        replaceNonWord_def)
next
  case (Cons c cs)
  have "isDigit c \<Longrightarrow> isWordChar c"
    by (simp add: isWordChar_def)
  moreover have "\<not> isDigit (CHR ''_'')"
    by (simp add: isDigit_def)
  ultimately show ?thesis
    using Cons
    by (auto simp: sanitizeTableIdentifier_def toIdentifier_def prefixLeadingDigit_def
        replaceNonWord_def)
qed

text \<open>
  C2. The claim: the identifier interpolated into the \<open>DROP TABLE IF EXISTS\<close>
  statement equals the identifier the synthesis sanitizer produces. For the table name
  \<open>1abc\<close> the synthesis sanitizer gives \<open>_1abc\<close>, while the drop statement is built from
  \<open>1abc\<close>: the sanitizer of the drop statement leaves the leading digit without its
  prefix, and the statement reads \<open>DROP TABLE IF EXISTS 1abc;\<close>.
\<close>

theorem drop_identifier_leading_digit:
  "toIdentifier ''1abc'' = ''_1abc''
   \<and> sanitizeTableIdentifier ''1abc'' = ''1abc''
   \<and> dropStatement ''1abc'' = ''DROP TABLE IF EXISTS 1abc;''
   \<and> sanitizeTableIdentifier ''1abc'' \<noteq> toIdentifier ''1abc''"
  by (simp add: toIdentifier_def sanitizeTableIdentifier_def dropStatement_def
      prefixLeadingDigit_def replaceNonWord_def isWordChar_def isDigit_def)


section \<open>Properties of route path normalization\<close>

lemma normalizeRoutePath_leading_slash: "startsWith (normalizeRoutePath p) ''/''"
proof (cases "startsWith p ''/''")
  case False
  then show ?thesis
    by (simp add: normalizeRoutePath_def startsWith_def)
next
  case True
  then obtain cs where p: "p = CHR ''/'' # cs"
    by (cases p) (auto simp: startsWith_def)
  show ?thesis
  proof (cases "cs = []")
    case True
    with p show ?thesis
      by (simp add: normalizeRoutePath_def startsWith_def stripTrailingSlash_def)
  next
    case False
    with p show ?thesis
      by (auto simp: normalizeRoutePath_def startsWith_def stripTrailingSlash_def Let_def)
  qed
qed

lemma endsWith_slash_iff: "endsWith s ''/'' \<longleftrightarrow> (s \<noteq> [] \<and> last s = CHR ''/'')"
proof (cases s rule: rev_cases)
  case Nil
  then show ?thesis by (simp add: endsWith_def)
next
  case (snoc ys y)
  then show ?thesis by (simp add: endsWith_def)
qed

lemma endsWith_two_slashes_iff:
  "endsWith s ''//'' \<longleftrightarrow> (\<exists>q. s = q @ ''//'')"
proof
  assume a: "endsWith s ''//''"
  then have d: "drop (length s - length ''//'') s = ''//''"
    unfolding endsWith_def by blast
  have "take (length s - length ''//'') s @ drop (length s - length ''//'') s = s"
    by (rule append_take_drop_id)
  then have "s = take (length s - length ''//'') s @ ''//''"
    unfolding d by (rule sym)
  then show "\<exists>q. s = q @ ''//''" ..
next
  assume "\<exists>q. s = q @ ''//''"
  then show "endsWith s ''//''" by (auto simp: endsWith_def)
qed

lemma normalizeRoutePath_absolute_input:
  assumes "startsWith p ''/''" and "\<not> endsWith p ''//''"
  shows "normalizeRoutePath p = ''/'' \<or> \<not> endsWith (normalizeRoutePath p) ''/''"
proof (cases p rule: rev_cases)
  case Nil
  with assms(1) show ?thesis by (simp add: startsWith_def)
next
  case (snoc q c)
  show ?thesis
  proof (cases "c = CHR ''/''")
    case False
    with snoc assms(1) show ?thesis
      by (simp add: normalizeRoutePath_def stripTrailingSlash_def endsWith_slash_iff)
  next
    case True
    show ?thesis
    proof (cases "q = []")
      case True
      with snoc \<open>c = CHR ''/''\<close> show ?thesis
        by (simp add: normalizeRoutePath_def stripTrailingSlash_def startsWith_def)
    next
      case False
      have "last q \<noteq> CHR ''/''"
      proof
        assume "last q = CHR ''/''"
        with False have "butlast q @ ''/'' = q"
          using append_butlast_last_id [of q] by simp
        then have "p = butlast q @ ''//''"
          using snoc True by (metis append.assoc append_Cons append_Nil)
        with assms(2) show False
          by (auto simp: endsWith_two_slashes_iff)
      qed
      moreover have "normalizeRoutePath p = q"
        using snoc True False assms(1)
        by (simp add: normalizeRoutePath_def stripTrailingSlash_def Let_def)
      ultimately show ?thesis
        using False by (simp add: endsWith_slash_iff)
    qed
  qed
qed

text \<open>
  C4. The claim: for every input path the normalized route key starts with \<open>/\<close> and
  does not end with \<open>/\<close>, the root \<open>/\<close> apart. The input \<open>foo/\<close> has no leading slash,
  so \<open>normalizeRoutePath\<close> returns from its first branch with \<open>/foo/\<close>: the trailing
  slash is never stripped on that branch.
\<close>

theorem normalizeRoutePath_keeps_trailing_slash:
  "normalizeRoutePath ''foo/'' = ''/foo/''
   \<and> endsWith (normalizeRoutePath ''foo/'') ''/''
   \<and> normalizeRoutePath ''foo/'' \<noteq> ''/''"
  by (simp add: normalizeRoutePath_def startsWith_def endsWith_def)

section \<open>Directory segments and breadcrumbs\<close>







section \<open>The file tree as a map\<close>

lemma lookup_update: "lookup (AList.update p n s) q = (if q = p then Some n else lookup s q)"
  by (simp add: lookup_def update_conv')

lemma lookup_fold_mkdir:
  "lookup (fold (\<lambda>q. AList.update q Dir) qs s) x = (if x \<in> set qs then Some Dir else lookup s x)"
  by (induction qs arbitrary: s) (auto simp: lookup_update)

lemma lookup_filter_prefix:
  "lookup (filter (\<lambda>(q, n). \<not> isPrefixOf p q) s) x = (if isPrefixOf p x then None else lookup s x)"
  by (induction s) (auto simp: lookup_def)

lemma lookup_delete: "lookup (AList.delete p s) q = (if q = p then None else lookup s q)"
  by (simp add: lookup_def delete_conv')

lemma ensureDir_Done:
  assumes "ensureDir p s = Done u s'"
  shows "lookup s' q = (if q \<in> set (ancestors p) then Some Dir else lookup s q)"
    and "\<forall>a \<in> set (ancestors p). \<not> isFile s a"
proof -
  from assms have nil: "filter (isFile s) (ancestors p) = []"
    and s': "s' = fold (\<lambda>q. AList.update q Dir) (ancestors p) s"
    by (auto simp: ensureDir_def split: list.splits)
  from s' show "lookup s' q = (if q \<in> set (ancestors p) then Some Dir else lookup s q)"
    by (simp add: lookup_fold_mkdir)
  from nil show "\<forall>a \<in> set (ancestors p). \<not> isFile s a"
    by (simp add: filter_empty_conv)
qed

lemma ensureDir_Threw: "ensureDir p s = Threw e s' \<Longrightarrow> s' = s"
  by (auto simp: ensureDir_def split: list.splits)

lemma writeFile_Done:
  assumes "writeFile p c s = Done u s'"
  shows "lookup s' q = (if q = p then Some (File c) else lookup s q)"
    and "\<not> isDir s p" and "isDir s (dirname p)"
  using assms by (auto simp: writeFile_def lookup_update split: if_splits)

lemma writeFile_Threw: "writeFile p c s = Threw e s' \<Longrightarrow> s' = s"
  by (auto simp: writeFile_def split: if_splits)

lemma completed_Done: "completed r \<Longrightarrow> \<exists>m. r = Done m (finalTree r)"
  by (cases r) simp_all

lemma andThen_Done:
  "andThen r f = Done x s' \<longleftrightarrow> (\<exists>u t. r = Done u t \<and> f t = Done x s')"
  by (cases r) auto

lemma andThen_Threw:
  "andThen r f = Threw e s' \<longleftrightarrow> (r = Threw e s' \<or> (\<exists>u t. r = Done u t \<and> f t = Threw e s'))"
  by (cases r) auto

lemma writeTextFile_Done:
  assumes "writeTextFile p c s = Done u s'"
  shows "lookup s' q =
           (if q = p then Some (File c)
            else if q \<in> set (ancestors (dirname p)) then Some Dir else lookup s q)"
proof -
  from assms obtain t where t: "ensureDir (dirname p) s = Done () t"
    and w: "writeFile p c t = Done u s'"
    by (auto simp: writeTextFile_def andThen_Done)
  show ?thesis
    by (simp add: writeFile_Done(1) [OF w] ensureDir_Done(1) [OF t])
qed

lemma ancestors_mem:
  "a \<in> set (ancestors p) \<longleftrightarrow> (a \<noteq> [] \<and> length a \<le> length p \<and> isPrefixOf a p)"
proof
  assume "a \<in> set (ancestors p)"
  then obtain n where n: "1 \<le> n" "n \<le> length p" "a = take n p"
    by (auto simp: ancestors_def)
  then show "a \<noteq> [] \<and> length a \<le> length p \<and> isPrefixOf a p"
    by (auto simp: isPrefixOf_def min_def)
next
  assume a: "a \<noteq> [] \<and> length a \<le> length p \<and> isPrefixOf a p"
  then have "a = take (length a) p" "1 \<le> length a" "length a < Suc (length p)"
    by (auto simp: isPrefixOf_def Suc_leI)
  then show "a \<in> set (ancestors p)"
    unfolding ancestors_def by (metis atLeastLessThan_iff imageI set_map set_upt)
qed

lemma not_in_ancestors_dirname: "p \<notin> set (ancestors (dirname p))"
proof
  assume "p \<in> set (ancestors (dirname p))"
  then have "p \<noteq> []" "length p \<le> length (butlast p)"
    by (simp_all add: ancestors_mem dirname_def)
  then show False by (cases p rule: rev_cases) simp_all
qed

lemma writeTextFile_file:
  assumes "writeTextFile p c s = Done u s'"
  shows "lookup s' p = Some (File c)"
  by (simp add: writeTextFile_Done [OF assms])

lemma set_listFiles: "set (listFiles d s) = {n. lookup s (d @ [n]) \<noteq> None}"
proof -
  have "set (listFiles d s) = {last q | q. q \<in> fst ` set s \<and> q \<noteq> [] \<and> butlast q = d}"
    by (force simp: listFiles_def)
  also have "\<dots> = {n. d @ [n] \<in> fst ` set s}"
  proof (rule set_eqI, rule iffI)
    fix n assume "n \<in> {last q | q. q \<in> fst ` set s \<and> q \<noteq> [] \<and> butlast q = d}"
    then obtain q where q: "n = last q" "q \<in> fst ` set s" "q \<noteq> []" "butlast q = d"
      by blast
    then have "d @ [n] = q"
      by (metis append_butlast_last_id)
    with q show "n \<in> {n. d @ [n] \<in> fst ` set s}" by simp
  next
    fix n assume "n \<in> {n. d @ [n] \<in> fst ` set s}"
    then have "d @ [n] \<in> fst ` set s" by simp
    moreover have "last (d @ [n]) = n" "d @ [n] \<noteq> []" "butlast (d @ [n]) = d"
      by simp_all
    ultimately show "n \<in> {last q | q. q \<in> fst ` set s \<and> q \<noteq> [] \<and> butlast q = d}"
      by (metis (mono_tags, lifting) mem_Collect_eq)
  qed
  also have "\<dots> = {n. lookup s (d @ [n]) \<noteq> None}"
    by (simp add: lookup_def map_of_eq_None_iff)
  finally show ?thesis .
qed

lemma distinct_listFiles: "distinct (listFiles d s)"
  by (simp add: listFiles_def)

lemma sort_filter_distinct:
  fixes xs :: "string list"
  assumes "distinct xs"
  shows "sort (filter P xs) = sorted_list_of_set {x \<in> set xs. P x}"
proof -
  have d: "remdups (filter P xs) = filter P xs"
    using assms by (simp add: distinct_remdups_id)
  have "sorted_list_of_set (set (filter P xs)) = sort (remdups (filter P xs))"
    by (rule sorted_list_of_set_sort_remdups)
  then have "sort (filter P xs) = sorted_list_of_set (set (filter P xs))"
    unfolding d by (rule sym)
  moreover have "set (filter P xs) = {x \<in> set xs. P x}" by auto
  ultimately show ?thesis by (simp only:)
qed

lemma ensureDir_keeps_file:
  assumes "ensureDir p s = Done u s'" and "lookup s q = Some (File c)" and "q \<noteq> []"
  shows "lookup s' q = Some (File c)"
proof -
  have "isFile s q" using assms(2,3) by (simp add: isFile_def)
  with ensureDir_Done(2) [OF assms(1)] have "q \<notin> set (ancestors p)" by blast
  then show ?thesis by (simp add: ensureDir_Done(1) [OF assms(1)] assms(2))
qed

lemma writeTextFile_keeps_file:
  assumes "writeTextFile p c' s = Done u s'" and "lookup s q = Some (File c)" and "q \<noteq> []"
    and "q \<noteq> p"
  shows "lookup s' q = Some (File c)"
proof -
  from assms(1) obtain t where t: "ensureDir (dirname p) s = Done () t"
    and w: "writeFile p c' t = Done u s'"
    by (auto simp: writeTextFile_def andThen_Done)
  have "lookup t q = Some (File c)"
    by (rule ensureDir_keeps_file [OF t assms(2,3)])
  then show ?thesis
    using assms(4) by (simp add: writeFile_Done(1) [OF w])
qed

section \<open>Objects\<close>

lemma map_of_insertIndexed:
  "map_of obj k = None \<Longrightarrow>
   map_of (insertIndexed i k v obj) k' = (if k' = k then Some v else map_of obj k')"
  by (induction obj) (auto split: option.splits if_splits)

lemma set_insertIndexed: "set (insertIndexed i k v obj) = insert (k, v) (set obj)"
  by (induction obj) (auto split: option.splits if_splits)

lemma map_of_objDefine: "map_of (objDefine k v obj) k' = (if k' = k then Some v else map_of obj k')"
  by (auto simp: objDefine_def update_conv' map_of_insertIndexed map_add_def split: option.splits)

lemma keys_objDefine: "fst ` set (objDefine k v obj) = insert k (fst ` set obj)"
proof -
  have "dom (map_of (objDefine k v obj)) = insert k (dom (map_of obj))"
    by (auto simp: map_of_objDefine dom_def)
  then show ?thesis by (simp add: dom_map_of_conv_image_fst)
qed

lemma distinct_insertIndexed:
  "distinct (map fst obj) \<Longrightarrow> k \<notin> fst ` set obj \<Longrightarrow> distinct (map fst (insertIndexed i k v obj))"
  by (induction obj) (auto simp: set_insertIndexed split: option.splits if_splits)

lemma distinct_objDefine:
  assumes "distinct (map fst obj)"
  shows "distinct (map fst (objDefine k v obj))"
proof (cases "map_of obj k")
  case None
  then have "k \<notin> fst ` set obj" by (simp add: map_of_eq_None_iff)
  with assms None show ?thesis
    by (auto simp: objDefine_def distinct_insertIndexed split: option.splits)
next
  case (Some old)
  with assms show ?thesis by (simp add: objDefine_def distinct_update)
qed

lemma distinct_foldl_objDefine:
  "distinct (map fst acc) \<Longrightarrow> distinct (map fst (foldl (\<lambda>obj (k, v). objDefine k v obj) acc ms))"
  by (induction ms arbitrary: acc) (auto simp: distinct_objDefine)

lemma distinct_parseObject: "distinct (map fst (parseObject ms))"
  by (simp add: parseObject_def distinct_foldl_objDefine)

lemma map_of_foldl_objDefine:
  "distinct (map fst ms) \<Longrightarrow>
   map_of (foldl (\<lambda>obj (k, v). objDefine k v obj) acc ms) k
     = (case map_of ms k of Some v \<Rightarrow> Some v | None \<Rightarrow> map_of acc k)"
proof (induction ms arbitrary: acc)
  case Nil
  then show ?case by simp
next
  case (Cons m ms)
  obtain k0 v0 where m: "m = (k0, v0)" by (cases m)
  from Cons.prems m have d: "distinct (map fst ms)" and n: "k0 \<notin> fst ` set ms" by auto
  from n have "map_of ms k0 = None" by (simp add: map_of_eq_None_iff)
  then show ?case
    using Cons.IH [OF d, of "objDefine k0 v0 acc"] m
    by (auto simp: map_of_objDefine split: option.splits)
qed

lemma map_of_parseObject:
  "distinct (map fst ms) \<Longrightarrow> map_of (parseObject ms) k = map_of ms k"
  by (simp add: parseObject_def map_of_foldl_objDefine split: option.splits)

lemma map_of_rev_unique:
  assumes "(T, P) \<in> set rows" and "\<And>e. (T, e) \<in> set rows \<Longrightarrow> e = P"
  shows "map_of (rev rows) T = Some P"
proof (cases "map_of (rev rows) T")
  case None
  then have "T \<notin> fst ` set (rev rows)" by (simp add: map_of_eq_None_iff)
  with assms(1) show ?thesis by force
next
  case (Some e)
  then have "(T, e) \<in> set (rev rows)" by (rule map_of_SomeD)
  with assms(2) Some show ?thesis by simp
qed

lemma set_objDefine_distinct:
  assumes "distinct (map fst obj)"
  shows "set (objDefine k v obj) = insert (k, v) {e \<in> set obj. fst e \<noteq> k}"
proof -
  have d: "distinct (map fst (objDefine k v obj))" by (rule distinct_objDefine [OF assms])
  show ?thesis
  proof (rule set_eqI)
    fix e :: "string \<times> 'a"
    obtain a b where e: "e = (a, b)" by (cases e)
    have "(a, b) \<in> set (objDefine k v obj) \<longleftrightarrow> map_of (objDefine k v obj) a = Some b"
      using d by simp
    also have "\<dots> \<longleftrightarrow> (if a = k then b = v else map_of obj a = Some b)"
      by (auto simp: map_of_objDefine)
    also have "\<dots> \<longleftrightarrow> (a, b) \<in> insert (k, v) {e \<in> set obj. fst e \<noteq> k}"
      using assms by auto
    finally show "e \<in> set (objDefine k v obj) \<longleftrightarrow> e \<in> insert (k, v) {e \<in> set obj. fst e \<noteq> k}"
      by (simp add: e)
  qed
qed

lemma map_of_foldl_objDefine_rev:
  "map_of (foldl (\<lambda>obj (k, v). objDefine k v obj) acc ms) k
     = (case map_of (rev ms) k of Some v \<Rightarrow> Some v | None \<Rightarrow> map_of acc k)"
proof (induction ms arbitrary: acc)
  case Nil
  then show ?case by simp
next
  case (Cons m ms)
  obtain k0 v0 where m: "m = (k0, v0)" by (cases m)
  show ?case
    using Cons.IH [of "objDefine k0 v0 acc"] m
    by (auto simp: map_of_objDefine map_add_def split: option.splits)
qed

lemma objSet_plain: "k \<noteq> ''__proto__'' \<Longrightarrow> objSet k v obj = objDefine k v obj"
  by (simp add: objSet_def)

lemma objSet_own: "map_of obj k = Some old \<Longrightarrow> objSet k v obj = objDefine k v obj"
  by (simp add: objSet_def)

lemma distinct_objSet:
  "distinct (map fst obj) \<Longrightarrow> distinct (map fst (objSet k v obj))"
  by (simp add: objSet_def distinct_objDefine)

lemma map_of_objSet:
  "k \<noteq> ''__proto__'' \<Longrightarrow>
   map_of (objSet k v obj) k' = (if k' = k then Some v else map_of obj k')"
  by (simp add: objSet_plain map_of_objDefine)

lemma set_objSet_distinct:
  "distinct (map fst obj) \<Longrightarrow> k \<noteq> ''__proto__'' \<Longrightarrow>
   set (objSet k v obj) = insert (k, v) {e \<in> set obj. fst e \<noteq> k}"
  by (simp add: objSet_plain set_objDefine_distinct)

section \<open>Table upsert\<close>

lemma indexFile_eq: "indexFile root = schemaDir root @ [''index.ts'']"
  by (simp add: indexFile_def pathJoin_def pushSegment_def)

lemma indexedFiles_eq:
  "indexedFiles root s =
     sorted_list_of_set {n. lookup s (schemaDir root @ [n]) \<noteq> None
        \<and> endsWith n ''.ts'' \<and> n \<noteq> ''index.ts'' \<and> \<not> startsWith n ''_''}"
proof -
  have "indexedFiles root s =
      sorted_list_of_set {n \<in> set (listFiles (schemaDir root) s).
        endsWith n ''.ts'' \<and> n \<noteq> ''index.ts'' \<and> \<not> startsWith n ''_''}"
    unfolding indexedFiles_def by (rule sort_filter_distinct) (rule distinct_listFiles)
  then show ?thesis
    by (simp add: set_listFiles)
qed

lemma indexedFiles_cong:
  assumes "\<And>n. n \<noteq> ''index.ts'' \<Longrightarrow>
              (lookup s (schemaDir root @ [n]) \<noteq> None) = (lookup t (schemaDir root @ [n]) \<noteq> None)"
  shows "indexedFiles root s = indexedFiles root t"
proof -
  have "{n. lookup s (schemaDir root @ [n]) \<noteq> None
        \<and> endsWith n ''.ts'' \<and> n \<noteq> ''index.ts'' \<and> \<not> startsWith n ''_''}
      = {n. lookup t (schemaDir root @ [n]) \<noteq> None
        \<and> endsWith n ''.ts'' \<and> n \<noteq> ''index.ts'' \<and> \<not> startsWith n ''_''}"
    using assms by blast
  then show ?thesis by (simp only: indexedFiles_eq)
qed

lemma upsertTable_Done:
  "upsertTable env root p s = Done m s1 \<longleftrightarrow>
     (\<exists>sA. writeTextFile (tableFile root (tableName p)) (Text (generateTableContent p)) s = Done () sA
        \<and> updateSchemaIndex root sA = Done () s1
        \<and> generateSucceeds env \<and> pushSucceeds env
        \<and> m = ''Table '' @ tableName p @ '' synced.'')"
  by (auto simp: upsertTable_def andThen_Done runDrizzle_def)

lemma child_not_ancestor: "d @ [n] \<notin> set (ancestors d)"
  by (simp add: ancestors_mem)

lemma upsertTable_twice_lookup:
  assumes u1: "upsertTable env root p s = Done m1 s1"
    and u2: "upsertTable env' root p s1 = Done m2 s2"
  shows "lookup s2 q = lookup s1 q"
proof -
  define T where "T = tableFile root (tableName p)"
  define c where "c = Text (generateTableContent p)"
  define D where "D = schemaDir root"
  define I where "I = D @ [''index.ts'']"
  have dI: "dirname I = D" by (simp add: I_def dirname_def)
  from u1 obtain sA where a: "writeTextFile T c s = Done () sA"
    and i1: "writeTextFile I (Text (indexContent (indexedFiles root sA))) sA = Done () s1"
    by (auto simp: upsertTable_Done T_def c_def updateSchemaIndex_def indexFile_eq I_def D_def)
  from u2 obtain sB where b: "writeTextFile T c s1 = Done () sB"
    and i2: "writeTextFile I (Text (indexContent (indexedFiles root sB))) sB = Done () s2"
    by (auto simp: upsertTable_Done T_def c_def updateSchemaIndex_def indexFile_eq I_def D_def)
  note lA = writeTextFile_Done [OF a]
  note l1 = writeTextFile_Done [OF i1, unfolded dI]
  note lB = writeTextFile_Done [OF b]
  note l2 = writeTextFile_Done [OF i2, unfolded dI]
  have same: "indexedFiles root sB = indexedFiles root sA"
  proof (rule indexedFiles_cong)
    fix n :: string assume n: "n \<noteq> ''index.ts''"
    have neq: "D @ [n] \<noteq> I" using n by (simp add: I_def)
    have na: "D @ [n] \<notin> set (ancestors D)" by (rule child_not_ancestor)
    have "lookup s1 (D @ [n]) = lookup sA (D @ [n])"
      using neq na by (simp add: l1)
    moreover have "lookup sB (D @ [n]) \<noteq> None \<longleftrightarrow> lookup s1 (D @ [n]) \<noteq> None"
      by (simp add: lB l1 lA)
    ultimately show "(lookup sB (schemaDir root @ [n]) \<noteq> None) = (lookup sA (schemaDir root @ [n]) \<noteq> None)"
      by (simp add: D_def)
  qed
  show ?thesis
    by (simp add: l2 lB l1 lA same)
qed


text \<open>
  C8. For every table payload, an upsert followed by a second upsert of the same payload
  leaves the schema artifact byte for byte as the first upsert left it; and the text an
  upsert leaves in the artifact is \<open>generateTableContent payload\<close>, which reads nothing
  but the payload (the artifact named \<open>index.ts\<close> apart, which the index overwrites).
\<close>

theorem upsertTable_idempotent:
  assumes "upsertTable env root p s = Done m1 s1"
    and "upsertTable env' root p s1 = Done m2 s2"
  shows "lookup s2 (tableFile root (tableName p)) = lookup s1 (tableFile root (tableName p))
         \<and> (tableFile root (tableName p) \<noteq> indexFile root \<longrightarrow>
              lookup s1 (tableFile root (tableName p))
                = Some (File (Text (generateTableContent p))))"
proof -
  from assms(1) obtain sA where
    a: "writeTextFile (tableFile root (tableName p)) (Text (generateTableContent p)) s = Done () sA"
    and i: "writeTextFile (indexFile root) (Text (indexContent (indexedFiles root sA))) sA = Done () s1"
    by (auto simp: upsertTable_Done updateSchemaIndex_def)
  have "tableFile root (tableName p) \<noteq> indexFile root \<Longrightarrow>
      lookup s1 (tableFile root (tableName p)) = Some (File (Text (generateTableContent p)))"
  proof -
    assume ne: "tableFile root (tableName p) \<noteq> indexFile root"
    have "isFile sA (tableFile root (tableName p))"
      using writeTextFile_file [OF a] writeFile_Done(2) a
      by (auto simp: isFile_def writeTextFile_def andThen_Done isDir_def)
    moreover from i obtain t where "ensureDir (dirname (indexFile root)) sA = Done () t"
      by (auto simp: writeTextFile_def andThen_Done)
    ultimately have "tableFile root (tableName p) \<notin> set (ancestors (dirname (indexFile root)))"
      using ensureDir_Done(2) by blast
    then show ?thesis
      using ne by (simp add: writeTextFile_Done [OF i] writeTextFile_file [OF a])
  qed
  then show ?thesis
    using upsertTable_twice_lookup [OF assms] by simp
qed

theorem upsertTable_idempotent_witness:
  "lookup (finalTree (upsertTable exampleEnv exampleRoot todosPayload
             (finalTree (upsertTable exampleEnv exampleRoot todosPayload []))))
      (tableFile exampleRoot ''todos'')
   = Some (File (Text (generateTableContent todosPayload)))"
proof -
  have "completed (upsertTable exampleEnv exampleRoot todosPayload [])"
    by code_simp
  then obtain m1 where u1: "upsertTable exampleEnv exampleRoot todosPayload []
      = Done m1 (finalTree (upsertTable exampleEnv exampleRoot todosPayload []))"
    using completed_Done by blast
  have "completed (upsertTable exampleEnv exampleRoot todosPayload
          (finalTree (upsertTable exampleEnv exampleRoot todosPayload [])))"
    by code_simp
  then obtain m2 where u2: "upsertTable exampleEnv exampleRoot todosPayload
          (finalTree (upsertTable exampleEnv exampleRoot todosPayload []))
      = Done m2 (finalTree (upsertTable exampleEnv exampleRoot todosPayload
          (finalTree (upsertTable exampleEnv exampleRoot todosPayload []))))"
    using completed_Done by blast
  have ne: "tableFile exampleRoot (tableName todosPayload) \<noteq> indexFile exampleRoot"
    by code_simp
  have nm: "tableName todosPayload = ''todos''"
    by (simp add: todosPayload_def)
  show ?thesis
    using upsertTable_idempotent [OF u1 u2] ne unfolding nm by simp
qed

section \<open>Joined paths\<close>

lemma split_on_not_Nil: "split_on c xs \<noteq> []"
  by (induction xs) (auto split: list.splits)

lemma split_on_append:
  assumes "c \<notin> set ys"
  shows "split_on c (xs @ ys) = butlast (split_on c xs) @ [last (split_on c xs) @ ys]"
proof (induction xs)
  case Nil
  have "split_on c ys = [ys]"
    using assms by (induction ys) auto
  then show ?case by simp
next
  case (Cons x xs)
  show ?case
  proof (cases "x = c")
    case True
    with Cons show ?thesis by (simp add: split_on_not_Nil)
  next
    case False
    obtain w ws where ws: "split_on c xs = w # ws"
      using split_on_not_Nil [of c xs] by (cases "split_on c xs") auto
    show ?thesis
    proof (cases ws)
      case Nil
      with False Cons ws show ?thesis by simp
    next
      case (Cons v vs)
      with False Cons.IH ws show ?thesis by simp
    qed
  qed
qed

lemma foldl_pushSegment_plain:
  assumes "''..'' \<notin> set segs"
  shows "foldl pushSegment base segs = base @ filter (\<lambda>s. s \<noteq> [] \<and> s \<noteq> ''.'') segs"
  using assms by (induction segs arbitrary: base) (auto simp: pushSegment_def)

lemma schemaDir_eq: "schemaDir root = root @ [''src'', ''db'', ''schema'']"
  by (simp add: schemaDir_def resolveFromRoot_def pathJoin_def pushSegment_def)

lemma archiveDir_eq: "archiveDir root = schemaDir root @ [''_archive'']"
  by (simp add: archiveDir_def pathJoin_def pushSegment_def)

lemma pathJoin_file_plain:
  assumes "''..'' \<notin> set (split_on (CHR ''/'') name)"
    and "CHR ''/'' \<notin> set suffix" and "suffix \<noteq> []" and "last suffix \<noteq> CHR ''.''"
  shows "pathJoin base [name @ suffix]
         = base @ filter (\<lambda>s. s \<noteq> [] \<and> s \<noteq> ''.'') (butlast (split_on (CHR ''/'') name))
             @ [last (split_on (CHR ''/'') name) @ suffix]"
proof -
  let ?segs = "split_on (CHR ''/'') name"
  have sp: "split_on (CHR ''/'') (name @ suffix) = butlast ?segs @ [last ?segs @ suffix]"
    using assms(2) by (rule split_on_append)
  have "last (last ?segs @ suffix) = last suffix"
    using assms(3) by simp
  with assms(4) have l: "last ?segs @ suffix \<noteq> ''..''" "last ?segs @ suffix \<noteq> ''.''"
    by auto
  have "set (butlast ?segs) \<subseteq> set ?segs"
    by (auto dest: in_set_butlastD)
  with assms(1) l have "''..'' \<notin> set (butlast ?segs @ [last ?segs @ suffix])"
    by auto
  then have "foldl pushSegment base (butlast ?segs @ [last ?segs @ suffix])
      = base @ filter (\<lambda>s. s \<noteq> [] \<and> s \<noteq> ''.'') (butlast ?segs @ [last ?segs @ suffix])"
    by (rule foldl_pushSegment_plain)
  moreover have "last ?segs @ suffix \<noteq> []" using assms(3) by simp
  ultimately show ?thesis
    using l by (simp add: pathJoin_def sp)
qed

lemma showNat_digits: "set (showNat n) \<subseteq> set ''0123456789''"
proof (induction n rule: showNat.induct)
  case (1 n)
  have d: "\<And>k. digitChar k \<in> set ''0123456789''"
    unfolding digitChar_def by (rule nth_mem) simp
  show ?case
  proof (cases "n < 10")
    case True
    then show ?thesis using d [of n] by (subst showNat.simps) simp
  next
    case False
    then show ?thesis
      using 1 d [of "n mod 10"] by (subst showNat.simps) auto
  qed
qed

lemma tableFile_plain:
  assumes "''..'' \<notin> set (split_on (CHR ''/'') name)"
  shows "tableFile root name
         = schemaDir root @ filter (\<lambda>s. s \<noteq> [] \<and> s \<noteq> ''.'') (butlast (split_on (CHR ''/'') name))
             @ [last (split_on (CHR ''/'') name) @ ''.ts'']"
  unfolding tableFile_def using assms by (rule pathJoin_file_plain) simp_all

lemma archivedFile_plain:
  assumes "''..'' \<notin> set (split_on (CHR ''/'') name)"
  shows "archivedFile root name t
         = archiveDir root @ filter (\<lambda>s. s \<noteq> [] \<and> s \<noteq> ''.'') (butlast (split_on (CHR ''/'') name))
             @ [last (split_on (CHR ''/'') name) @ ''-'' @ showNat t @ ''.ts'']"
proof -
  have "CHR ''/'' \<notin> set (''-'' @ showNat t @ ''.ts'')"
    using showNat_digits [of t] by auto
  with assms have "pathJoin (archiveDir root) [name @ (''-'' @ showNat t @ ''.ts'')]
      = archiveDir root @ filter (\<lambda>s. s \<noteq> [] \<and> s \<noteq> ''.'') (butlast (split_on (CHR ''/'') name))
             @ [last (split_on (CHR ''/'') name) @ (''-'' @ showNat t @ ''.ts'')]"
    by (rule pathJoin_file_plain) simp_all
  then show ?thesis by (simp add: archivedFile_def)
qed

section \<open>Table delete\<close>

lemma rename_Threw: "rename src dst s = Threw e s' \<Longrightarrow> s' = s"
  by (auto simp: rename_def split: if_splits option.splits node.splits)

lemma rename_file_Done:
  assumes "rename src dst s = Done u s'" and "lookup s src = Some (File c)" and "src \<noteq> dst"
  shows "lookup s' q = (if q = dst then Some (File c) else if q = src then None else lookup s q)"
  using assms
  by (auto simp: rename_def lookup_update lookup_delete split: if_splits)

lemma finalTree_andThen:
  "finalTree (andThen r f) = (case r of Threw e s \<Rightarrow> s | Done u s \<Rightarrow> finalTree (f s))"
  by (cases r) simp_all

lemma completed_andThen:
  "completed (andThen r f) = (case r of Threw e s \<Rightarrow> False | Done u s \<Rightarrow> completed (f s))"
  by (cases r) simp_all

lemma finalTree_dropTable: "finalTree (dropTable env n s) = s"
  by (simp add: dropTable_def)

lemma finalTree_runDrizzle: "finalTree (runDrizzle env s) = s"
  by (simp add: runDrizzle_def)

lemma finalTree_table_tail:
  "finalTree (andThen (dropTable env n t) (\<lambda>s. andThen (runDrizzle env s) (\<lambda>s. Done m s))) = t"
  by (simp add: dropTable_def runDrizzle_def)

lemma finalTree_deleteTable:
  "finalTree (deleteTable env root n s)
   = finalTree (andThen (archivePhase env root n s) (updateSchemaIndex root))"
proof (cases "archivePhase env root n s")
  case (Threw e t)
  then show ?thesis by (simp add: deleteTable_def)
next
  case (Done u t)
  then show ?thesis
    by (cases "updateSchemaIndex root t") (simp_all add: deleteTable_def finalTree_table_tail)
qed

lemma completed_deleteTable:
  "completed (deleteTable env root n s)
   \<Longrightarrow> completed (andThen (archivePhase env root n s) (updateSchemaIndex root))"
  unfolding deleteTable_def
  by (auto simp: completed_andThen split: outcome.splits)

lemma archivePhase_file:
  assumes src: "lookup s T = Some (File c)" and "T \<noteq> []" and "T \<noteq> A"
    and T: "T = tableFile root n" and A: "A = archivedFile root n (clock env)"
  shows "archivePhase env root n s = Threw e t \<Longrightarrow> lookup t T = Some (File c)"
    and "archivePhase env root n s = Done u t \<Longrightarrow> lookup t A = Some (File c) \<and> lookup t T = None"
proof -
  have ex: "fileExists T s" using src by (simp add: fileExists_def)
  have ph: "archivePhase env root n s
      = andThen (ensureDir (archiveDir root) s)
          (\<lambda>s. andThen (ensureDir (dirname A) s) (rename T A))"
    using ex by (simp add: archivePhase_def T [symmetric] A [symmetric] moveFile_def [abs_def])
  {
    assume "archivePhase env root n s = Threw e t"
    then consider "ensureDir (archiveDir root) s = Threw e t"
      | s1 where "ensureDir (archiveDir root) s = Done () s1" "ensureDir (dirname A) s1 = Threw e t"
      | s1 s2 where "ensureDir (archiveDir root) s = Done () s1" "ensureDir (dirname A) s1 = Done () s2"
          "rename T A s2 = Threw e t"
      unfolding ph by (auto simp: andThen_Threw)
    then show "lookup t T = Some (File c)"
    proof cases
      case 1
      then show ?thesis using src by (simp add: ensureDir_Threw [OF 1])
    next
      case 2
      show ?thesis
        using ensureDir_keeps_file [OF 2(1) src \<open>T \<noteq> []\<close>] ensureDir_Threw [OF 2(2)] by simp
    next
      case 3
      show ?thesis
        using ensureDir_keeps_file [OF 3(2) ensureDir_keeps_file [OF 3(1) src \<open>T \<noteq> []\<close>] \<open>T \<noteq> []\<close>]
          rename_Threw [OF 3(3)] by simp
    qed
  next
    assume "archivePhase env root n s = Done u t"
    then obtain s1 s2 where 1: "ensureDir (archiveDir root) s = Done () s1"
      and 2: "ensureDir (dirname A) s1 = Done () s2" and 3: "rename T A s2 = Done u t"
      unfolding ph by (auto simp: andThen_Done)
    have "lookup s2 T = Some (File c)"
      by (rule ensureDir_keeps_file [OF 2 ensureDir_keeps_file [OF 1 src \<open>T \<noteq> []\<close>] \<open>T \<noteq> []\<close>])
    from rename_file_Done [OF 3 this \<open>T \<noteq> A\<close>]
    show "lookup t A = Some (File c) \<and> lookup t T = None"
      using \<open>T \<noteq> A\<close> by simp
  }
qed

lemma writeTextFile_Threw:
  assumes "writeTextFile p c s = Threw e s'" and "q \<notin> set (ancestors (dirname p))"
  shows "lookup s' q = lookup s q"
proof -
  from assms(1) consider "ensureDir (dirname p) s = Threw e s'"
    | t where "ensureDir (dirname p) s = Done () t" "writeFile p c t = Threw e s'"
    by (auto simp: writeTextFile_def andThen_Threw)
  then show ?thesis
  proof cases
    case 1
    then show ?thesis by (simp add: ensureDir_Threw [OF 1])
  next
    case 2
    then show ?thesis
      using assms(2) by (simp add: writeFile_Threw [OF 2(2)] ensureDir_Done(1) [OF 2(1)])
  qed
qed

lemma updateSchemaIndex_Done:
  assumes "updateSchemaIndex root t = Done u t'"
  shows "lookup t' q =
           (if q = indexFile root then Some (File (Text (indexContent (indexedFiles root t))))
            else if q \<in> set (ancestors (schemaDir root)) then Some Dir else lookup t q)"
    and "indexedFiles root t' = indexedFiles root t"
proof -
  have d: "dirname (indexFile root) = schemaDir root"
    by (simp add: indexFile_eq dirname_def)
  from assms show l: "lookup t' q =
           (if q = indexFile root then Some (File (Text (indexContent (indexedFiles root t))))
            else if q \<in> set (ancestors (schemaDir root)) then Some Dir else lookup t q)" for q
    using writeTextFile_Done [of "indexFile root" _ t u t' q]
    by (simp add: updateSchemaIndex_def d)
  show "indexedFiles root t' = indexedFiles root t"
  proof (rule indexedFiles_cong)
    fix n :: string assume "n \<noteq> ''index.ts''"
    then show "(lookup t' (schemaDir root @ [n]) \<noteq> None) = (lookup t (schemaDir root @ [n]) \<noteq> None)"
      by (simp add: l indexFile_eq child_not_ancestor)
  qed
qed

lemma updateSchemaIndex_keeps:
  assumes "q \<noteq> indexFile root" and "q \<notin> set (ancestors (schemaDir root))"
  shows "lookup (finalTree (updateSchemaIndex root t)) q = lookup t q"
proof (cases "updateSchemaIndex root t")
  case (Threw e t')
  have d: "dirname (indexFile root) = schemaDir root"
    by (simp add: indexFile_eq dirname_def)
  from Threw have "writeTextFile (indexFile root) (Text (indexContent (indexedFiles root t))) t = Threw e t'"
    by (simp add: updateSchemaIndex_def)
  from writeTextFile_Threw [OF this] assms(2) Threw show ?thesis
    by (simp add: d)
next
  case (Done u t')
  with assms show ?thesis
    by (simp add: updateSchemaIndex_Done(1) [OF Done])
qed

lemma indexedFiles_exist:
  "n \<in> set (indexedFiles root t) \<Longrightarrow> lookup t (schemaDir root @ [n]) \<noteq> None"
proof -
  assume "n \<in> set (indexedFiles root t)"
  then have "n \<in> set (listFiles (schemaDir root) t)"
    by (simp add: indexedFiles_def)
  then show ?thesis by (simp add: set_listFiles)
qed

text \<open>
  C7, as amended. For every table delete whose table name has no \<open>..\<close> segment and
  whose schema artifact exists: whatever the outcome, the artifact's content is still on
  disk, at its place or at \<open>_archive/<tableName>-<timestamp>.ts\<close>; and when the operation
  completes, that timestamp-tagged copy exists below the archive directory, the schema
  index on disk is the one regenerated from the directory, and no file it re-exports is
  the table's file.
\<close>

theorem deleteTable_archives:
  assumes nodots: "''..'' \<notin> set (split_on (CHR ''/'') n)"
    and T: "T = tableFile root n"
    and A: "A = archivedFile root n (clock env)"
    and F: "F = finalTree (deleteTable env root n s)"
    and src: "lookup s T = Some (File c)"
  shows "(lookup F T = Some (File c) \<or> lookup F A = Some (File c))
       \<and> (completed (deleteTable env root n s) \<longrightarrow>
            lookup F A = Some (File c)
            \<and> isPrefixOf (archiveDir root) A \<and> A \<noteq> archiveDir root
            \<and> lookup F (indexFile root) = Some (File (Text (indexContent (indexedFiles root F))))
            \<and> (\<forall>file \<in> set (indexedFiles root F). schemaDir root @ [file] \<noteq> T))"
proof -
  let ?mid = "filter (\<lambda>s. s \<noteq> [] \<and> s \<noteq> ''.'') (butlast (split_on (CHR ''/'') n))"
  let ?D = "schemaDir root"
  have Teq: "T = ?D @ ?mid @ [last (split_on (CHR ''/'') n) @ ''.ts'']"
    unfolding T using nodots by (rule tableFile_plain)
  have Aeq: "A = ?D @ [''_archive''] @ ?mid
                  @ [last (split_on (CHR ''/'') n) @ ''-'' @ showNat (clock env) @ ''.ts'']"
    unfolding A using archivedFile_plain [OF nodots] by (simp add: archiveDir_eq)
  have Tne: "T \<noteq> []" using Teq by simp
  have "length A = Suc (length T)" using Teq Aeq by simp
  then have TA: "T \<noteq> A" by auto
  have AI: "A \<noteq> indexFile root" using Aeq by (simp add: indexFile_eq)
  have "length ?D < length A" using Aeq by simp
  then have Aanc: "A \<notin> set (ancestors ?D)" by (simp add: ancestors_mem)
  have pre: "isPrefixOf (archiveDir root) A \<and> A \<noteq> archiveDir root"
    using Aeq by (simp add: isPrefixOf_def archiveDir_eq)
  have Ftree: "F = finalTree (andThen (archivePhase env root n s) (updateSchemaIndex root))"
    unfolding F by (rule finalTree_deleteTable)
  have first: "lookup F T = Some (File c) \<or> lookup F A = Some (File c)"
  proof (cases "archivePhase env root n s")
    case (Threw e t)
    with archivePhase_file(1) [OF src Tne TA T A Threw] show ?thesis
      by (simp add: Ftree)
  next
    case (Done u t)
    from archivePhase_file(2) [OF src Tne TA T A Done] have "lookup t A = Some (File c)" ..
    with Done updateSchemaIndex_keeps [OF AI Aanc, of t] show ?thesis
      by (simp add: Ftree)
  qed
  have second: "lookup F A = Some (File c)
            \<and> isPrefixOf (archiveDir root) A \<and> A \<noteq> archiveDir root
            \<and> lookup F (indexFile root) = Some (File (Text (indexContent (indexedFiles root F))))
            \<and> (\<forall>file \<in> set (indexedFiles root F). schemaDir root @ [file] \<noteq> T)"
    if fin: "completed (deleteTable env root n s)"
  proof -
    from completed_deleteTable [OF fin] obtain t where
      ph: "archivePhase env root n s = Done () t" and cx: "completed (updateSchemaIndex root t)"
      by (auto simp: completed_andThen split: outcome.splits)
    from completed_Done [OF cx] obtain t' where ix: "updateSchemaIndex root t = Done () t'"
      by auto
    have Ft: "F = t'" using ph ix by (simp add: Ftree)
    from archivePhase_file(2) [OF src Tne TA T A ph]
    have tA: "lookup t A = Some (File c)" and tT: "lookup t T = None" by simp_all
    have "lookup F A = Some (File c)"
      using updateSchemaIndex_keeps [OF AI Aanc, of t] ix tA by (simp add: Ft)
    moreover have "lookup F (indexFile root) = Some (File (Text (indexContent (indexedFiles root F))))"
      by (simp add: Ft updateSchemaIndex_Done [OF ix])
    moreover have "\<forall>file \<in> set (indexedFiles root F). schemaDir root @ [file] \<noteq> T"
    proof
      fix f assume "f \<in> set (indexedFiles root F)"
      then have "f \<in> set (indexedFiles root t)"
        by (simp add: Ft updateSchemaIndex_Done(2) [OF ix])
      then have "lookup t (schemaDir root @ [f]) \<noteq> None"
        by (rule indexedFiles_exist)
      with tT show "schemaDir root @ [f] \<noteq> T" by auto
    qed
    ultimately show ?thesis using pre by simp
  qed
  from first second show ?thesis by blast
qed

text \<open>
  The amended C7 at the \<open>todos\<close> table, deleted from the tree its upsert leaves: the
  artifact is found at \<open>_archive/todos-5.ts\<close>, and the index re-exports nothing.
\<close>

theorem deleteTable_archives_witness:
  "lookup (finalTree (deleteTable exampleEnv exampleRoot ''todos''
             (finalTree (upsertTable exampleEnv exampleRoot todosPayload []))))
      (archivedFile exampleRoot ''todos'' (clock exampleEnv))
   = Some (File (Text (generateTableContent todosPayload)))
   \<and> isPrefixOf (archiveDir exampleRoot) (archivedFile exampleRoot ''todos'' (clock exampleEnv))"
proof -
  let ?s = "finalTree (upsertTable exampleEnv exampleRoot todosPayload [])"
  have nodots: "''..'' \<notin> set (split_on (CHR ''/'') ''todos'')"
    by simp
  have src: "lookup ?s (tableFile exampleRoot ''todos'')
      = Some (File (Text (generateTableContent todosPayload)))"
    by code_simp
  have fin: "completed (deleteTable exampleEnv exampleRoot ''todos'' ?s)"
    by code_simp
  show ?thesis
    using deleteTable_archives [OF nodots refl refl refl src] fin by blast
qed

text \<open>
  C7 as stated fails for a table name that climbs out of the schema directory. The
  artifact of the table \<open>../x\<close> is \<open>src/db/x.ts\<close>; its delete completes and moves it to
  \<open>src/db/schema/x-5.ts\<close>, which is not below \<open>_archive\<close> (nothing but the directory
  itself is), and the regenerated index re-exports that copy.
\<close>

theorem deleteTable_outside_archive_counterexample:
  "lookup strayTree (tableFile exampleRoot ''../x'') = Some (File (Text ''export const x = 1;''))
   \<and> completed (deleteTable exampleEnv exampleRoot ''../x'' strayTree)
   \<and> archivedFile exampleRoot ''../x'' (clock exampleEnv)
       = [''work'', ''src'', ''db'', ''schema'', ''x-5.ts'']
   \<and> \<not> isPrefixOf (archiveDir exampleRoot) (archivedFile exampleRoot ''../x'' (clock exampleEnv))
   \<and> filter (\<lambda>(q, n). isPrefixOf (archiveDir exampleRoot) q \<and> n \<noteq> Dir)
        (finalTree (deleteTable exampleEnv exampleRoot ''../x'' strayTree)) = []
   \<and> indexedFiles exampleRoot (finalTree (deleteTable exampleEnv exampleRoot ''../x'' strayTree))
       = [''x-5.ts'']"
  by code_simp

section \<open>Layout upsert\<close>


lemma layoutManifestPath_eq:
  "layoutManifestPath root = root @ [''src'', ''app'', ''_generated'', ''templates'', ''layoutManifest.json'']"
  by (simp add: layoutManifestPath_def resolveFromRoot_def pathJoin_def pushSegment_def)

lemma layoutsFile_eq:
  "layoutsFile root = root @ [''src'', ''app'', ''_generated'', ''templates'', ''layouts.ts'']"
  by (simp add: layoutsFile_def resolveFromRoot_def pathJoin_def pushSegment_def)

lemma distinct_readLayoutManifest: "distinct (map fst (readLayoutManifest root s))"
  by (auto simp: readLayoutManifest_def distinct_parseObject
      split: option.splits node.splits content.splits)

lemma entryLiteral_plain:
  "list_all (\<lambda>(name, ids). name \<noteq> ''__proto__'') (areas e) \<Longrightarrow> entryLiteral e = e"
proof -
  assume "list_all (\<lambda>(name, ids). name \<noteq> ''__proto__'') (areas e)"
  then have "filter (\<lambda>(name, ids). name \<noteq> ''__proto__'') (areas e) = areas e"
    by (simp add: list_all_iff)
  then show ?thesis by (simp add: entryLiteral_def)
qed

lemma layoutModule_lookup:
  assumes plain: "list_all (\<lambda>(key, entry). plainLiteral key \<and> key \<noteq> ''__proto__'') rows"
    and mem: "(T, P) \<in> set rows"
    and only: "\<And>e. (T, e) \<in> set rows \<Longrightarrow> e = P"
  shows "getLayoutForTemplate rows T = Some (Own (entryLiteral P))"
proof -
  let ?rows = "map (\<lambda>(key, entry). (key, entryLiteral entry)) rows"
  have fold: "foldl (\<lambda>obj (key, entry). objDefine key (entryLiteral entry) obj) acc rs
      = foldl (\<lambda>obj (k, v). objDefine k v obj) acc (map (\<lambda>(key, entry). (key, entryLiteral entry)) rs)"
    for acc rs
    by (induction rs arbitrary: acc) (auto simp: case_prod_beta)
  have "(T, entryLiteral P) \<in> set ?rows" using mem by force
  moreover have "e = entryLiteral P" if "(T, e) \<in> set ?rows" for e
    using that only by auto
  ultimately have "map_of (rev ?rows) T = Some (entryLiteral P)"
    by (rule map_of_rev_unique)
  then have "map_of (foldl (\<lambda>obj (key, entry). objDefine key (entryLiteral entry) obj) [] rows) T
      = Some (entryLiteral P)"
    unfolding fold by (simp add: map_of_foldl_objDefine_rev)
  then show ?thesis
    using plain by (simp add: getLayoutForTemplate_def layoutModule_def objGet_def)
qed

text \<open>
  C3, as amended. For every layout upsert that completes and whose \<open>layoutId\<close> is not
  \<open>__proto__\<close>, the persisted layout manifest afterwards maps the payload's \<open>layoutId\<close>
  to the payload (the manifest is keyed by \<open>layoutId\<close>), and the regenerated lookup
  artifact has one row per entry of the updated manifest, keyed by the text of the
  entry's \<open>templateId\<close>. The artifact resolves the payload's \<open>templateId\<close> to the payload
  whenever every \<open>templateId\<close> of the updated manifest is free of quote, backslash and
  line break and is not \<open>__proto__\<close>, the payload has no area named \<open>__proto__\<close>, and no
  entry under another \<open>layoutId\<close> carries the same \<open>templateId\<close>.
\<close>

theorem upsertLayout_keyed_by_layoutId:
  assumes up: "upsertLayout root P s = Done m s'"
    and key: "layoutId P \<noteq> ''__proto__''"
    and new: "manifest = objSet (layoutId P) P (readLayoutManifest root s)"
  shows "map_of (readLayoutManifest root s') (layoutId P) = Some P
       \<and> lookup s' (layoutsFile root) = Some (File (LayoutsSource (layoutRows manifest)))
       \<and> (list_all (\<lambda>e. plainLiteral (lp_templateId e) \<and> lp_templateId e \<noteq> ''__proto__'')
             (objValues manifest)
            \<and> list_all (\<lambda>(name, ids). name \<noteq> ''__proto__'') (areas P)
            \<and> (\<forall>(k, e) \<in> set (readLayoutManifest root s).
                  k \<noteq> layoutId P \<longrightarrow> lp_templateId e \<noteq> lp_templateId P)
            \<longrightarrow> getLayoutForTemplate (layoutRows manifest) (lp_templateId P) = Some (Own P))"
proof -
  let ?old = "readLayoutManifest root s"
  have dold: "distinct (map fst ?old)" by (rule distinct_readLayoutManifest)
  have dnew: "distinct (map fst manifest)" unfolding new by (rule distinct_objSet [OF dold])
  have mem: "(layoutId P, P) \<in> set manifest"
    unfolding new by (simp add: set_objSet_distinct [OF dold key])
  then have ne: "objValues manifest \<noteq> []" by (auto simp: objValues_def)
  from up obtain sA where
    w: "writeTextFile (layoutManifestPath root) (LayoutManifestJson manifest) s = Done () sA"
    and y: "writeTextFile (layoutsFile root) (LayoutsSource (layoutRows manifest)) sA = Done () s'"
    using ne
    by (auto simp: upsertLayout_def Let_def new [symmetric] andThen_Done writeLayoutManifest_def
        syncLayoutsTs_def)
  have "layoutManifestPath root \<noteq> layoutsFile root"
    by (simp add: layoutManifestPath_eq layoutsFile_eq)
  moreover have "layoutManifestPath root \<notin> set (ancestors (dirname (layoutsFile root)))"
    by (simp add: ancestors_mem layoutManifestPath_eq layoutsFile_eq dirname_def)
  ultimately have "lookup s' (layoutManifestPath root) = Some (File (LayoutManifestJson manifest))"
    by (simp add: writeTextFile_Done [OF y] writeTextFile_file [OF w])
  then have "readLayoutManifest root s' = parseObject manifest"
    by (simp add: readLayoutManifest_def)
  then have a: "map_of (readLayoutManifest root s') (layoutId P) = Some P"
    using mem dnew by (simp add: map_of_parseObject)
  have b: "lookup s' (layoutsFile root) = Some (File (LayoutsSource (layoutRows manifest)))"
    by (rule writeTextFile_file [OF y])
  have c: "getLayoutForTemplate (layoutRows manifest) (lp_templateId P) = Some (Own P)"
    if plain: "list_all (\<lambda>e. plainLiteral (lp_templateId e) \<and> lp_templateId e \<noteq> ''__proto__'')
                 (objValues manifest)"
      and noproto: "list_all (\<lambda>(name, ids). name \<noteq> ''__proto__'') (areas P)"
      and other: "\<forall>(k, e) \<in> set ?old. k \<noteq> layoutId P \<longrightarrow> lp_templateId e \<noteq> lp_templateId P"
  proof -
    have rows: "list_all (\<lambda>(key, entry). plainLiteral key \<and> key \<noteq> ''__proto__'')
                  (layoutRows manifest)"
      using plain by (simp add: layoutRows_def list_all_iff)
    have inrows: "(lp_templateId P, P) \<in> set (layoutRows manifest)"
      using mem by (force simp: layoutRows_def objValues_def)
    have only: "e = P" if "(lp_templateId P, e) \<in> set (layoutRows manifest)" for e
    proof -
      from that obtain k where k: "(k, e) \<in> set manifest" and t: "lp_templateId e = lp_templateId P"
        by (auto simp: layoutRows_def objValues_def)
      from k have "(k, e) = (layoutId P, P) \<or> ((k, e) \<in> set ?old \<and> k \<noteq> layoutId P)"
        unfolding new by (auto simp: set_objSet_distinct [OF dold key])
      with other t show "e = P" by auto
    qed
    from layoutModule_lookup [OF rows inrows only] entryLiteral_plain [OF noproto]
    show ?thesis by simp
  qed
  from a b c show ?thesis by blast
qed

text \<open>
  The amended C3 at the layout \<open>L1\<close> for template \<open>T1\<close>, upserted into the tree that the
  upsert of layout \<open>L3\<close> for template \<open>T3\<close> leaves.
\<close>

theorem upsertLayout_keyed_by_layoutId_witness:
  "map_of (readLayoutManifest exampleRoot
      (finalTree (upsertLayout exampleRoot layoutOne
         (finalTree (upsertLayout exampleRoot layoutThree []))))) ''L1'' = Some layoutOne
   \<and> getLayoutForTemplate
        (layoutRows (objSet ''L1'' layoutOne
           (readLayoutManifest exampleRoot (finalTree (upsertLayout exampleRoot layoutThree [])))))
        ''T1'' = Some (Own layoutOne)"
proof -
  let ?s = "finalTree (upsertLayout exampleRoot layoutThree [])"
  have "completed (upsertLayout exampleRoot layoutOne ?s)"
    by code_simp
  then obtain m where up: "upsertLayout exampleRoot layoutOne ?s
      = Done m (finalTree (upsertLayout exampleRoot layoutOne ?s))"
    using completed_Done by blast
  have old: "readLayoutManifest exampleRoot ?s = [(''L3'', layoutThree)]"
    by code_simp
  have key: "layoutId layoutOne \<noteq> ''__proto__''"
    by (simp add: layoutOne_def)
  have plain: "list_all (\<lambda>e. plainLiteral (lp_templateId e) \<and> lp_templateId e \<noteq> ''__proto__'')
       (objValues (objSet (layoutId layoutOne) layoutOne (readLayoutManifest exampleRoot ?s)))"
    by code_simp
  have noproto: "list_all (\<lambda>(name, ids). name \<noteq> ''__proto__'') (areas layoutOne)"
    by (simp add: layoutOne_def)
  have other: "\<forall>(k, e) \<in> set (readLayoutManifest exampleRoot ?s).
      k \<noteq> layoutId layoutOne \<longrightarrow> lp_templateId e \<noteq> lp_templateId layoutOne"
    unfolding old by (simp add: layoutOne_def layoutThree_def)
  have ids: "layoutId layoutOne = ''L1''" "lp_templateId layoutOne = ''T1''"
    by (simp_all add: layoutOne_def)
  show ?thesis
    using upsertLayout_keyed_by_layoutId [OF up key refl] plain noproto other unfolding ids
    by blast
qed

text \<open>
  C3 as stated fails. After the upsert of layout \<open>L1\<close> for template \<open>T1\<close> into the empty
  tree, the manifest has no entry under \<open>T1\<close>: its key is \<open>L1\<close>. After the upserts of
  \<open>L1\<close>, of \<open>L2\<close> for the same template and of \<open>L1\<close> again, the lookup artifact has two
  rows for \<open>T1\<close> and resolves it to the payload of \<open>L2\<close>, not to the payload just
  upserted. And the upsert of a layout whose \<open>layoutId\<close> is \<open>__proto__\<close> completes and
  persists an empty manifest.
\<close>

theorem upsertLayout_templateId_counterexample:
  "completed (upsertLayout exampleRoot layoutOne [])
   \<and> map_of (readLayoutManifest exampleRoot (finalTree (upsertLayout exampleRoot layoutOne [])))
        (lp_templateId layoutOne) = None
   \<and> lookup (finalTree (upsertLayout exampleRoot layoutOneAgain
        (finalTree (upsertLayout exampleRoot layoutTwo
           (finalTree (upsertLayout exampleRoot layoutOne []))))))
        (layoutsFile exampleRoot)
       = Some (File (LayoutsSource [(''T1'', layoutOneAgain), (''T1'', layoutTwo)]))
   \<and> getLayoutForTemplate [(''T1'', layoutOneAgain), (''T1'', layoutTwo)]
        (lp_templateId layoutOneAgain) = Some (Own layoutTwo)
   \<and> layoutTwo \<noteq> layoutOneAgain
   \<and> completed (upsertLayout exampleRoot layoutProto [])
   \<and> readLayoutManifest exampleRoot (finalTree (upsertLayout exampleRoot layoutProto [])) = []"
  by code_simp

section \<open>Template upsert\<close>

lemma ensureDir_grows:
  assumes "ensureDir p s = Done u s'"
  shows "isDir s' p" and "isDir s q \<Longrightarrow> isDir s' q" and "isFile s q \<Longrightarrow> isFile s' q"
proof -
  show "isDir s' p"
    by (cases "p = []") (simp_all add: isDir_def ensureDir_Done(1) [OF assms] ancestors_mem isPrefixOf_def)
  show "isDir s q \<Longrightarrow> isDir s' q"
    by (auto simp: isDir_def ensureDir_Done(1) [OF assms])
  show "isFile s q \<Longrightarrow> isFile s' q"
  proof -
    assume f: "isFile s q"
    with ensureDir_Done(2) [OF assms] have "q \<notin> set (ancestors p)" by blast
    with f show ?thesis by (simp add: isFile_def ensureDir_Done(1) [OF assms])
  qed
qed

lemma writeFile_grows:
  assumes "writeFile p c s = Done u s'"
  shows "isFile s' p" and "isDir s q \<Longrightarrow> isDir s' q" and "isFile s q \<Longrightarrow> isFile s' q"
proof -
  from writeFile_Done(2) [OF assms] have ne: "p \<noteq> []" by (auto simp: isDir_def)
  then show "isFile s' p"
    by (simp add: isFile_def writeFile_Done(1) [OF assms])
  show "isDir s q \<Longrightarrow> isDir s' q"
    using writeFile_Done(2) [OF assms] by (auto simp: isDir_def writeFile_Done(1) [OF assms])
  show "isFile s q \<Longrightarrow> isFile s' q"
    by (auto simp: isFile_def writeFile_Done(1) [OF assms])
qed

lemma writeTextFile_grows:
  assumes "writeTextFile p c s = Done u s'"
  shows "isFile s' p" and "isDir s q \<Longrightarrow> isDir s' q" and "isFile s q \<Longrightarrow> isFile s' q"
proof -
  from assms obtain t where t: "ensureDir (dirname p) s = Done () t"
    and w: "writeFile p c t = Done u s'"
    by (auto simp: writeTextFile_def andThen_Done)
  show "isFile s' p" by (rule writeFile_grows(1) [OF w])
  show "isDir s q \<Longrightarrow> isDir s' q"
    by (rule writeFile_grows(2) [OF w]) (rule ensureDir_grows(2) [OF t])
  show "isFile s q \<Longrightarrow> isFile s' q"
    by (rule writeFile_grows(3) [OF w]) (rule ensureDir_grows(3) [OF t])
qed

lemma ensureDynamicRoute_grows:
  assumes "ensureDynamicRoute root rp opts s = Done u s'"
  shows "isFile s' (detailPage root rp)" and "isDir s q \<Longrightarrow> isDir s' q"
    and "isFile s q \<Longrightarrow> isFile s' q"
proof -
  from assms obtain t where t: "ensureDir (detailDir root rp) s = Done () t"
    and w: "writeTextFile (detailPage root rp)
              (DetailPageSource (opts\<lparr>dro_routePath := normalizeRoutePath rp\<rparr>)) t = Done u s'"
    by (auto simp: ensureDynamicRoute_def andThen_Done)
  show "isFile s' (detailPage root rp)" by (rule writeTextFile_grows(1) [OF w])
  show "isDir s q \<Longrightarrow> isDir s' q"
    by (rule writeTextFile_grows(2) [OF w]) (rule ensureDir_grows(2) [OF t])
  show "isFile s q \<Longrightarrow> isFile s' q"
    by (rule writeTextFile_grows(3) [OF w]) (rule ensureDir_grows(3) [OF t])
qed

lemma ensureAll_dynamic_grows:
  assumes "ensureAll (map (\<lambda>x. ensureDynamicRoute root rp (opts x)) xs) s = Done u s'"
  shows "(\<forall>q. (isDir s q \<longrightarrow> isDir s' q) \<and> (isFile s q \<longrightarrow> isFile s' q))
         \<and> (xs \<noteq> [] \<longrightarrow> isFile s' (detailPage root rp))"
  using assms
proof (induction xs arbitrary: s)
  case Nil
  then show ?case by simp
next
  case (Cons x xs)
  from Cons.prems obtain t where
    t: "ensureDynamicRoute root rp (opts x) s = Done () t"
    and r: "ensureAll (map (\<lambda>x. ensureDynamicRoute root rp (opts x)) xs) t = Done u s'"
    by (auto simp: andThen_Done)
  from Cons.IH [OF r] ensureDynamicRoute_grows [OF t] show ?case
    by blast
qed

lemma updateRegistry_grows:
  assumes "updateRegistry root manifest s = Done u s'"
  shows "isDir s q \<Longrightarrow> isDir s' q" and "isFile s q \<Longrightarrow> isFile s' q"
  using assms writeTextFile_grows(2,3)
  by (auto simp: updateRegistry_def split: if_splits)

text \<open>
  C5. After a template upsert that completes, the directory of the route named by
  \<open>routePath\<close> exists, and if some component is a table with \<open>dynamicRouting = true\<close>, the
  detail page \<open>[id]/page.tsx\<close> exists below that directory.
\<close>

theorem upsertTemplate_cascade:
  assumes "upsertTemplate root P s = Done m s'"
  shows "isDir s' (routeDir root (normalizeRoutePath (tp_routePath P)))
       \<and> (\<forall>c \<in> set (tp_components P). isDynamicTable c \<longrightarrow>
            isFile s' (pathJoin (routeDir root (normalizeRoutePath (tp_routePath P)))
                         [''[id]'', ''page.tsx'']))"
proof -
  let ?R = "routeDir root (normalizeRoutePath (tp_routePath P))"
  let ?manifest = "objSet (tp_templateId P)
                       \<lparr>te_templateId = tp_templateId P, te_routePath = tp_routePath P\<rparr>
                       (readTemplateManifest root s)"
  from assms obtain s1 s2 s3 s4 s5 where
    1: "ensureDir ?R s = Done () s1"
    and 2: "ensureDynamicPages root P s1 = Done () s2"
    and 3: "writeTextFile (templateManifestPath root) (TemplateManifestJson ?manifest) s2 = Done () s3"
    and 4: "ensureDir (dirname (templateFilePath root (tp_templateId P))) s3 = Done () s4"
    and 5: "writeTextFile (templateFilePath root (tp_templateId P)) (TemplateSource P) s4 = Done () s5"
    and 6: "updateRegistry root ?manifest s5 = Done () s'"
    by (auto simp: upsertTemplate_def Let_def andThen_Done ensureRoute_def)
  have page: "pathJoin ?R [''[id]'', ''page.tsx''] = detailPage root (tp_routePath P)"
    by (simp add: detailPage_def detailDir_def pathJoin_def pushSegment_def)
  note g2 = ensureAll_dynamic_grows [OF 2 [unfolded ensureDynamicPages_def]]
  have "isDir s1 ?R" by (rule ensureDir_grows(1) [OF 1])
  then have "isDir s2 ?R" using g2 by blast
  then have "isDir s3 ?R" by (rule writeTextFile_grows(2) [OF 3])
  then have "isDir s4 ?R" by (rule ensureDir_grows(2) [OF 4])
  then have "isDir s5 ?R" by (rule writeTextFile_grows(2) [OF 5])
  then have dir: "isDir s' ?R" by (rule updateRegistry_grows(1) [OF 6])
  have "isFile s' (detailPage root (tp_routePath P))"
    if c: "c \<in> set (tp_components P)" "isDynamicTable c" for c
  proof -
    from c have "filter isDynamicTable (tp_components P) \<noteq> []"
      by (auto simp: filter_empty_conv)
    then have "isFile s2 (detailPage root (tp_routePath P))" using g2 by blast
    then have "isFile s3 (detailPage root (tp_routePath P))" by (rule writeTextFile_grows(3) [OF 3])
    then have "isFile s4 (detailPage root (tp_routePath P))" by (rule ensureDir_grows(3) [OF 4])
    then have "isFile s5 (detailPage root (tp_routePath P))" by (rule writeTextFile_grows(3) [OF 5])
    then show ?thesis by (rule updateRegistry_grows(2) [OF 6])
  qed
  with dir page show ?thesis by simp
qed

text \<open>
  C5 at the template \<open>todoList\<close> for the route \<open>/todos\<close>, upserted into the empty tree:
  \<open>src/app/todos\<close> is a directory and \<open>src/app/todos/[id]/page.tsx\<close> is a file.
\<close>

theorem upsertTemplate_cascade_witness:
  "isDir (finalTree (upsertTemplate exampleRoot todosTemplate []))
     [''work'', ''src'', ''app'', ''todos'']
   \<and> isFile (finalTree (upsertTemplate exampleRoot todosTemplate []))
       [''work'', ''src'', ''app'', ''todos'', ''[id]'', ''page.tsx'']"
proof -
  have "completed (upsertTemplate exampleRoot todosTemplate [])"
    by code_simp
  then obtain m where up: "upsertTemplate exampleRoot todosTemplate []
      = Done m (finalTree (upsertTemplate exampleRoot todosTemplate []))"
    using completed_Done by blast
  have r: "routeDir exampleRoot (normalizeRoutePath (tp_routePath todosTemplate))
      = [''work'', ''src'', ''app'', ''todos'']"
    by code_simp
  have p: "pathJoin [''work'', ''src'', ''app'', ''todos''] [''[id]'', ''page.tsx'']
      = [''work'', ''src'', ''app'', ''todos'', ''[id]'', ''page.tsx'']"
    by code_simp
  have c: "TableComponent ''list'' None ''todos'' None
           \<lparr>ds_endpointPath = ''/api/todos'', ds_primaryKey = ''id''\<rparr> (Some True)
         \<in> set (tp_components todosTemplate)"
    by (simp add: todosTemplate_def)
  show ?thesis
    using upsertTemplate_cascade [OF up] c unfolding r p by fastforce
qed

section \<open>Generated handlers\<close>






section \<open>Endpoint manifests and route files\<close>

lemma split_on_plain: "c \<notin> set xs \<Longrightarrow> split_on c xs = [xs]"
  by (induction xs) auto

lemma pathJoin_snoc_plain:
  assumes "seg \<noteq> []" "seg \<noteq> ''.''" "seg \<noteq> ''..''" "CHR ''/'' \<notin> set seg"
  shows "pathJoin base (xs @ [seg]) = pathJoin base xs @ [seg]"
  using assms by (simp add: pathJoin_def split_on_plain pushSegment_def)

lemma routeFilePath_eq:
  "routeFilePath root K
   = pathJoin (resolveFromRoot root ''src/app/api'') (routeSegments K) @ [''route.ts'']"
  unfolding routeFilePath_def by (rule pathJoin_snoc_plain) simp_all

lemma endpointManifestPath_eq:
  "endpointManifestPath root = root @ [''src'', ''app'', ''api'', ''manifest.json'']"
  by (simp add: endpointManifestPath_def resolveFromRoot_def pathJoin_def pushSegment_def)

lemma routeFile_not_manifest: "routeFilePath root K \<noteq> endpointManifestPath root"
proof
  assume "routeFilePath root K = endpointManifestPath root"
  then have "last (routeFilePath root K) = last (endpointManifestPath root)" by simp
  then show False by (simp add: routeFilePath_eq endpointManifestPath_eq)
qed

lemma update_new_key: "k \<notin> fst ` set al \<Longrightarrow> AList.update k v al = al @ [(k, v)]"
  by (induction al) auto

lemma foldl_update_distinct:
  "distinct (map fst (acc @ ms)) \<Longrightarrow>
   foldl (\<lambda>obj (k, v). AList.update k v obj) acc ms = acc @ ms"
proof (induction ms arbitrary: acc)
  case Nil
  then show ?case by simp
next
  case (Cons x ms)
  obtain k v where x: "x = (k, v)" by (cases x)
  from Cons.prems x have "k \<notin> fst ` set acc" by auto
  then have u: "AList.update k v acc = acc @ [(k, v)]" by (rule update_new_key)
  from Cons.prems x have "distinct (map fst ((acc @ [(k, v)]) @ ms))" by simp
  from Cons.IH [OF this] show ?case by (simp add: x u)
qed

lemma parseMembers_distinct: "distinct (map fst ms) \<Longrightarrow> parseMembers ms = ms"
  using foldl_update_distinct [of "[]" ms] by (simp add: parseMembers_def)

lemma distinct_foldl_update:
  "distinct (map fst acc) \<Longrightarrow>
   distinct (map fst (foldl (\<lambda>obj (k, v). AList.update k v obj) acc ms))"
  by (induction ms arbitrary: acc) (auto simp: distinct_update)

lemma distinct_parseMembers: "distinct (map fst (parseMembers ms))"
  by (simp add: parseMembers_def distinct_foldl_update)

lemma map_of_mapped_values:
  "map_of (map (\<lambda>(k, g). (k, f g)) xs) K = map_option f (map_of xs K)"
  by (induction xs) auto

lemma readEndpointManifest_group_distinct:
  assumes "map_of (readEndpointManifest root s) K = Some g"
  shows "distinct (map fst g)"
proof -
  from assms obtain members where
    "map_of (map (\<lambda>(k, g). (k, parseMembers g)) (parseObject members)) K = Some g"
    by (auto simp: readEndpointManifest_def split: option.splits node.splits content.splits)
  then obtain g0 where "g = parseMembers g0"
    by (auto simp: map_of_mapped_values)
  then show ?thesis by (simp add: distinct_parseMembers)
qed

lemma keys_mapped_values: "map fst (map (\<lambda>(k, g). (k, f g)) xs) = map fst xs"
  by (induction xs) auto

lemma distinct_readEndpointManifest: "distinct (map fst (readEndpointManifest root s))"
proof (cases "lookup s (endpointManifestPath root)")
  case None
  then show ?thesis by (simp add: readEndpointManifest_def)
next
  case (Some nd)
  show ?thesis
  proof (cases nd)
    case Dir
    with Some show ?thesis by (simp add: readEndpointManifest_def)
  next
    case (File c)
    have "distinct (map fst (map (\<lambda>(k, g). (k, parseMembers g)) (parseObject ms)))"
      for ms :: "(string \<times> (httpMethod \<times> EndpointConfig) list) list"
      unfolding keys_mapped_values by (rule distinct_parseObject)
    with Some File show ?thesis
      by (cases c) (simp_all add: readEndpointManifest_def)
  qed
qed

lemma readEndpointManifest_written:
  assumes "lookup s (endpointManifestPath root) = Some (File (EndpointManifestJson M))"
    and "distinct (map fst M)"
  shows "map_of (readEndpointManifest root s) K = map_option parseMembers (map_of M K)"
  using assms by (simp add: readEndpointManifest_def map_of_mapped_values map_of_parseObject)

lemma routePreamble_not_Nil: "routePreamble methods \<noteq> []"
  by (simp add: routePreamble_def Let_def)

lemma buildRouteFile_Nil_iff: "buildRouteFile K methods = [] \<longleftrightarrow> methods = []"
  by (simp add: buildRouteFile_def routePreamble_not_Nil)

lemma startsWith_append: "startsWith (p @ r) p"
  by (simp add: startsWith_def)

lemma buildMethodHandler_starts:
  "startsWith (buildMethodHandler m config) (''export async function '' @ methodName m @ ''('')"
proof -
  have "\<exists>r. buildMethodHandler m config = (''export async function '' @ methodName m @ ''('') @ r"
    by (simp add: buildMethodHandler_def Let_def)
  then show ?thesis using startsWith_append by metis
qed

lemma normalizeApiPath_not_proto: "normalizeApiPath apiPath \<noteq> ''__proto__''"
proof -
  define n1 where "n1 = (if \<not> startsWith (trim apiPath) ''/'' then ''/'' @ trim apiPath else trim apiPath)"
  define n2 where "n2 = (if \<not> startsWith n1 ''/api'' then ''/api'' @ n1 else n1)"
  have "take (length ''/api'') n2 = ''/api''"
    unfolding n2_def startsWith_def by (cases "take (length ''/api'') n1 = ''/api''") simp_all
  then obtain r where r: "n2 = ''/api'' @ r"
    by (metis append_take_drop_id)
  have "stripTrailingSlash n2 \<noteq> ''__proto__''"
    unfolding r by (cases "r = []") (simp_all add: stripTrailingSlash_def butlast_append)
  moreover have "normalizeApiPath apiPath = stripTrailingSlash n2"
    by (simp only: normalizeApiPath_def Let_def n1_def n2_def)
  ultimately show ?thesis by simp
qed

section \<open>Endpoint delete\<close>

lemma removeFile_Done:
  "removeFile p s = Done u s' \<Longrightarrow> lookup s' q = (if isPrefixOf p q then None else lookup s q)"
  by (auto simp: removeFile_def lookup_filter_prefix)

lemma isPrefixOf_refl: "isPrefixOf p p"
  by (simp add: isPrefixOf_def)

lemma writeRouteFile_Nil:
  "writeRouteFile root K [] s
   = (if fileExists (routeFilePath root K) s then removeFile (routeFilePath root K) s
      else Done () s)"
  by (simp add: writeRouteFile_def buildRouteFile_def)

lemma writeRouteFile_empty:
  assumes "writeRouteFile root K [] s = Done u s'"
  shows "lookup s' (routeFilePath root K) = None"
    and "lookup s' q = lookup s q \<or> lookup s' q = None"
proof -
  let ?F = "routeFilePath root K"
  have ne: "?F \<noteq> []" by (simp add: routeFilePath_eq)
  show "lookup s' ?F = None"
  proof (cases "fileExists ?F s")
    case True
    with assms have "removeFile ?F s = Done u s'" by (simp add: writeRouteFile_Nil)
    then show ?thesis by (simp add: removeFile_Done isPrefixOf_refl)
  next
    case False
    with assms have "s' = s" by (simp add: writeRouteFile_Nil)
    with False ne show ?thesis by (simp add: fileExists_def)
  qed
  show "lookup s' q = lookup s q \<or> lookup s' q = None"
  proof (cases "fileExists ?F s")
    case True
    with assms have "removeFile ?F s = Done u s'" by (simp add: writeRouteFile_Nil)
    then show ?thesis by (simp add: removeFile_Done)
  next
    case False
    with assms have "s' = s" by (simp add: writeRouteFile_Nil)
    then show ?thesis by simp
  qed
qed

lemma writeRouteFile_nonempty:
  assumes "writeRouteFile root K grp s = Done u s'" and "grp \<noteq> []"
  shows "lookup s' (routeFilePath root K) = Some (File (Text (buildRouteFile K grp)))"
    and "lookup s q = Some (File c) \<Longrightarrow> q \<noteq> [] \<Longrightarrow> q \<noteq> routeFilePath root K
         \<Longrightarrow> lookup s' q = Some (File c)"
proof -
  let ?F = "routeFilePath root K"
  from assms obtain t where t: "ensureDir (dirname ?F) s = Done () t"
    and w: "writeTextFile ?F (Text (buildRouteFile K grp)) t = Done u s'"
    by (auto simp: writeRouteFile_def Let_def buildRouteFile_Nil_iff andThen_Done)
  show "lookup s' ?F = Some (File (Text (buildRouteFile K grp)))"
    by (rule writeTextFile_file [OF w])
  show "lookup s q = Some (File c) \<Longrightarrow> q \<noteq> [] \<Longrightarrow> q \<noteq> ?F \<Longrightarrow> lookup s' q = Some (File c)"
    using writeTextFile_keeps_file [OF w] ensureDir_keeps_file [OF t] by blast
qed

lemma endpointManifestPath_not_Nil: "endpointManifestPath root \<noteq> []"
  by (simp add: endpointManifestPath_eq)

text \<open>
  C6. For an endpoint path with a method group in the manifest, after a delete that
  completes: if no method remains at the path (in particular when the deleted method was
  the only one), the route artifact does not exist and the manifest has no entry for the
  path; otherwise the artifact is the regenerated text, its imports followed by exactly
  one handler per method remaining in the manifest for the path, each starting with
  \<open>export async function <METHOD>(\<close>.
\<close>

theorem deleteEndpoint_regenerates:
  assumes grp: "map_of (readEndpointManifest root s) (normalizeApiPath apiPath) = Some g"
    and del: "deleteEndpoint root apiPath m s = Done msg s'"
    and K: "K = normalizeApiPath apiPath"
    and rest: "remaining = objDelete m g"
  shows "(objKeys g = [m] \<longrightarrow> remaining = [])
       \<and> (remaining = [] \<longrightarrow>
            lookup s' (routeFilePath root K) = None
            \<and> map_of (readEndpointManifest root s') K = None)
       \<and> (remaining \<noteq> [] \<longrightarrow>
            lookup s' (routeFilePath root K)
              = Some (File (Text (routePreamble remaining
                                   @ join ''\<newline>'' (map (\<lambda>(m', config). buildMethodHandler m' config)
                                                     remaining))))
            \<and> map_of (readEndpointManifest root s') K = Some remaining
            \<and> (\<forall>(m', config) \<in> set remaining.
                  startsWith (buildMethodHandler m' config)
                    (''export async function '' @ methodName m' @ ''('')))"
proof -
  let ?M = "readEndpointManifest root s"
  let ?MP = "endpointManifestPath root"
  let ?F = "routeFilePath root K"
  let ?M' = "if objKeys remaining = [] then objDelete K ?M else objSet K remaining ?M"
  have dM: "distinct (map fst ?M)" by (rule distinct_readEndpointManifest)
  have dg: "distinct (map fst g)" by (rule readEndpointManifest_group_distinct [OF grp])
  have dr: "distinct (map fst remaining)"
    unfolding rest objDelete_def using dg by (rule distinct_delete)
  have dM': "distinct (map fst ?M')"
    using dM by (simp add: objDelete_def distinct_delete distinct_objSet)
  from del grp obtain sA where
    w: "writeTextFile ?MP (EndpointManifestJson ?M') s = Done () sA"
    and f: "writeRouteFile root K remaining sA = Done () s'"
    by (auto simp: deleteEndpoint_def Let_def K [symmetric] rest [symmetric] andThen_Done
        writeEndpointManifest_def)
  have wA: "lookup sA ?MP = Some (File (EndpointManifestJson ?M'))"
    by (rule writeTextFile_file [OF w])
  have only: "objKeys g = [m] \<Longrightarrow> remaining = []"
  proof -
    assume "objKeys g = [m]"
    then obtain c where "g = [(m, c)]"
      by (cases g) (auto simp: objKeys_def)
    then show ?thesis by (simp add: rest objDelete_def)
  qed
  have empty: "lookup s' ?F = None \<and> map_of (readEndpointManifest root s') K = None"
    if r: "remaining = []"
  proof -
    note e = writeRouteFile_empty [OF f [unfolded r]]
    have M': "?M' = objDelete K ?M" using r by (simp add: objKeys_def)
    from e(2) [of ?MP] consider "lookup s' ?MP = Some (File (EndpointManifestJson ?M'))"
      | "lookup s' ?MP = None"
      using wA by auto
    then have "map_of (readEndpointManifest root s') K = None"
    proof cases
      case 1
      from readEndpointManifest_written [OF 1 dM', of K] show ?thesis
        unfolding M' by (simp add: objDelete_def delete_conv')
    next
      case 2
      then show ?thesis by (simp add: readEndpointManifest_def)
    qed
    with e(1) show ?thesis by simp
  qed
  have nonempty: "lookup s' ?F
        = Some (File (Text (routePreamble remaining
                             @ join ''\<newline>'' (map (\<lambda>(m', config). buildMethodHandler m' config)
                                               remaining))))
      \<and> map_of (readEndpointManifest root s') K = Some remaining"
    if r: "remaining \<noteq> []"
  proof -
    have M': "?M' = objSet K remaining ?M" using r by (simp add: objKeys_def)
    have "lookup s' ?MP = Some (File (EndpointManifestJson ?M'))"
      using writeRouteFile_nonempty(2) [OF f r wA endpointManifestPath_not_Nil]
        routeFile_not_manifest [of root K] by metis
    from readEndpointManifest_written [OF this dM', of K]
    have "map_of (readEndpointManifest root s') K = Some (parseMembers remaining)"
      unfolding M' by (simp add: map_of_objSet K normalizeApiPath_not_proto)
    with writeRouteFile_nonempty(1) [OF f r] r show ?thesis
      by (simp add: parseMembers_distinct [OF dr] buildRouteFile_def handlerTexts_def)
  qed
  have starts: "\<forall>(m', config) \<in> set remaining.
      startsWith (buildMethodHandler m' config) (''export async function '' @ methodName m' @ ''('')"
  proof (rule ballI)
    fix x assume "x \<in> set remaining"
    obtain a b where x: "x = (a, b)" by (cases x)
    show "case x of (m', config) \<Rightarrow>
        startsWith (buildMethodHandler m' config) (''export async function '' @ methodName m' @ ''('')"
      unfolding x using buildMethodHandler_starts [of a b] by (simp only: prod.case)
  qed
  from only empty nonempty starts show ?thesis
    by blast
qed

text \<open>
  C6 at the path \<open>/todos\<close>: with the methods \<open>GET\<close> and \<open>POST\<close> in the manifest, deleting
  \<open>GET\<close> leaves the artifact with the one handler for \<open>POST\<close>; with \<open>POST\<close> alone,
  deleting \<open>POST\<close> removes the artifact.
\<close>

theorem deleteEndpoint_regenerates_witness:
  "lookup (finalTree (deleteEndpoint exampleRoot ''/todos'' GET twoMethodsTree))
      (routeFilePath exampleRoot ''/api/todos'')
   = Some (File (Text (routePreamble [(POST, postTodos)]
                        @ join ''\<newline>'' [buildMethodHandler POST postTodos])))
   \<and> lookup (finalTree (deleteEndpoint exampleRoot ''/todos'' POST onlyPostTree))
      (routeFilePath exampleRoot ''/api/todos'')
   = None"
proof -
  have K: "normalizeApiPath ''/todos'' = ''/api/todos''"
    by code_simp
  have g2: "map_of (readEndpointManifest exampleRoot twoMethodsTree) (normalizeApiPath ''/todos'')
      = Some [(GET, getTodos), (POST, postTodos)]"
    by code_simp
  have "completed (deleteEndpoint exampleRoot ''/todos'' GET twoMethodsTree)"
    by code_simp
  then obtain m2 where d2: "deleteEndpoint exampleRoot ''/todos'' GET twoMethodsTree
      = Done m2 (finalTree (deleteEndpoint exampleRoot ''/todos'' GET twoMethodsTree))"
    using completed_Done by blast
  have r2: "objDelete GET [(GET, getTodos), (POST, postTodos)] = [(POST, postTodos)]"
    by (simp add: objDelete_def)
  have g3: "map_of (readEndpointManifest exampleRoot onlyPostTree) (normalizeApiPath ''/todos'')
      = Some [(POST, postTodos)]"
    by code_simp
  have "completed (deleteEndpoint exampleRoot ''/todos'' POST onlyPostTree)"
    by code_simp
  then obtain m3 where d3: "deleteEndpoint exampleRoot ''/todos'' POST onlyPostTree
      = Done m3 (finalTree (deleteEndpoint exampleRoot ''/todos'' POST onlyPostTree))"
    using completed_Done by blast
  have r3: "objDelete POST [(POST, postTodos)] = []"
    by (simp add: objDelete_def)
  have a: "lookup (finalTree (deleteEndpoint exampleRoot ''/todos'' GET twoMethodsTree))
        (routeFilePath exampleRoot ''/api/todos'')
      = Some (File (Text (routePreamble [(POST, postTodos)]
                        @ join ''\<newline>'' [buildMethodHandler POST postTodos])))"
    using deleteEndpoint_regenerates [OF g2 d2 refl refl] unfolding K r2 by simp
  have b: "lookup (finalTree (deleteEndpoint exampleRoot ''/todos'' POST onlyPostTree))
      (routeFilePath exampleRoot ''/api/todos'') = None"
    using deleteEndpoint_regenerates [OF g3 d3 refl refl] unfolding K r3 by simp
  from a b show ?thesis by simp
qed

section \<open>Endpoint upsert\<close>






end
